theory Spec2Isabelle
  imports Main "HOL-Library.Word"
begin

section \<open>Cell values and the JavaScript built-ins the code calls\<close>

text \<open>
  A row of an uploaded file is a \<^verbatim>\<open>Record<string, any>\<close>: an object whose own properties are
  the columns. The CSV reader produces string cells, the spreadsheet reader also produces
  numbers; the model has both. A number cell is a safe integer, one of magnitude below \<open>2^53\<close>
  that a double holds exactly and prints with all its digits: a 54-bit word read as a signed
  number. A row is the list of its own properties in insertion order, with distinct keys; reading
  a column that is absent gives \<^verbatim>\<open>undefined\<close>, here \<open>None\<close>. Boolean and date cells,
  numbers that are no safe integers and properties that a row inherits from
  \<^verbatim>\<open>Object.prototype\<close> are outside the model.

  A text is the list of its UTF-16 code units, and the texts of the model are those whose code
  units are below 256, one character each. Letter case and white space are those JavaScript
  gives these code units.
\<close>

datatype jsval = Str string | Num "54 word"

type_synonym Row = "(string \<times> jsval) list"

definition get :: "Row \<Rightarrow> string \<Rightarrow> jsval option" where
  "get r k = map_of r k"


text \<open>Truthiness: \<^verbatim>\<open>undefined\<close>, the empty string and \<open>0\<close> are falsy.\<close>

definition truthy :: "jsval option \<Rightarrow> bool" where
  "truthy v = (case v of None \<Rightarrow> False | Some (Str s) \<Rightarrow> s \<noteq> [] | Some (Num n) \<Rightarrow> n \<noteq> 0)"

text \<open>
  White space and line terminators, as \<^verbatim>\<open>trim\<close>, \<^verbatim>\<open>parseInt\<close> and the class \<^verbatim>\<open>\s\<close> know
  them: among the code units below 256 these are the tab, the four line and page controls, the
  space and the no-break space.
\<close>

definition isWhiteSpace :: "char \<Rightarrow> bool" where
  "isWhiteSpace c = (c \<in> set [CHR 0x09, CHR 0x0A, CHR 0x0B, CHR 0x0C, CHR 0x0D, CHR 0x20, CHR 0xA0])"

definition trim :: "string \<Rightarrow> string" where
  "trim s = rev (dropWhile isWhiteSpace (rev (dropWhile isWhiteSpace s)))"

text \<open>
  \<^verbatim>\<open>toLowerCase\<close>: the letters \<open>A\<close> to \<open>Z\<close> and the accented capitals \<open>0xC0\<close> to \<open>0xDE\<close>
  (the multiplication sign \<open>0xD7\<close> apart) move up by 32; every other code unit below 256 stays.
\<close>

definition lowerChar :: "char \<Rightarrow> char" where
  "lowerChar c =
     (let n = of_char c :: int
      in if (65 \<le> n \<and> n \<le> 90) \<or> (192 \<le> n \<and> n \<le> 222 \<and> n \<noteq> 215) then char_of (n + 32) else c)"

definition toLowerCase :: "string \<Rightarrow> string" where
  "toLowerCase s = map lowerChar s"

text \<open>\<^verbatim>\<open>s.split(c)\<close> for a one-character separator: never empty, \<^verbatim>\<open>"".split(",")\<close> is \<^verbatim>\<open>[""]\<close>.\<close>

fun split_on :: "char \<Rightarrow> string \<Rightarrow> string list" where
  "split_on c [] = [[]]"
| "split_on c (x # xs) =
     (if x = c then [] # split_on c xs
      else (case split_on c xs of w # ws \<Rightarrow> (x # w) # ws | [] \<Rightarrow> [[x]]))"

fun startsWith :: "'a list \<Rightarrow> 'a list \<Rightarrow> bool" where
  "startsWith s [] = True"
| "startsWith [] (p # ps) = False"
| "startsWith (x # xs) (p # ps) = (x = p \<and> startsWith xs ps)"

text \<open>\<^verbatim>\<open>hay.includes(needle)\<close> on strings.\<close>

fun str_includes :: "'a list \<Rightarrow> 'a list \<Rightarrow> bool" where
  "str_includes [] needle = (needle = [])"
| "str_includes (x # xs) needle = (startsWith (x # xs) needle \<or> str_includes xs needle)"

text \<open>\<^verbatim>\<open>xs.join(sep)\<close> on an array of strings.\<close>

fun join :: "'a list \<Rightarrow> 'a list list \<Rightarrow> 'a list" where
  "join sep [] = []"
| "join sep [x] = x"
| "join sep (x # y # ys) = x @ sep @ join sep (y # ys)"

subsection \<open>Numbers to strings and back\<close>

text \<open>The decimal digits of a number that is not negative.\<close>

function digits :: "int \<Rightarrow> string" where
  "digits n =
     (if n < 10 then [''0123456789'' ! nat n]
      else digits (n div 10) @ [''0123456789'' ! nat (n mod 10)])"
  by pat_completeness auto
termination
  by (relation "measure nat") auto

declare digits.simps [simp del]

definition show_int :: "int \<Rightarrow> string" where
  "show_int n = (if n < 0 then CHR ''-'' # digits (- n) else digits n)"

text \<open>
  JavaScript numbers are doubles. A finite double other than zero is \<open>m * 2^e\<close> with a
  mantissa \<open>m\<close> below \<open>2^53\<close> and an exponent \<open>e\<close> from \<open>-1074\<close> up, the mantissa being at
  least \<open>2^52\<close> unless the exponent is \<open>-1074\<close>. \<open>nearest num den\<close> is the double nearest to
  the positive fraction \<open>num / den\<close>, as mantissa and exponent, a tie going to the even mantissa;
  the exponent is 972 or more when the fraction is too large for a finite double.
\<close>

function bits :: "int \<Rightarrow> int" where
  "bits n = (if n \<le> 0 then 0 else 1 + bits (n div 2))"
  by pat_completeness auto
termination
  by (relation "measure nat") auto

declare bits.simps [simp del]

definition pow2 :: "int \<Rightarrow> int" where
  "pow2 e = 2 ^ nat e"

definition pow10 :: "int \<Rightarrow> int" where
  "pow10 e = 10 ^ nat e"

definition round_half_even :: "int \<Rightarrow> int \<Rightarrow> int" where
  "round_half_even num den =
     (let f = num div den; r = num mod den
      in if 2 * r < den then f else if den < 2 * r then f + 1 else if even f then f else f + 1)"

definition nearest :: "int \<Rightarrow> int \<Rightarrow> int \<times> int" where
  "nearest num den =
     (let b = bits num - bits den;
          fl = (if den * pow2 b \<le> num * pow2 (- b) then b else b - 1);
          e = max (fl - 52) (- 1074);
          m = round_half_even (num * pow2 (- e)) (den * pow2 e)
      in if m = 9007199254740992 then (4503599627370496, e + 1) else (m, e))"

text \<open>
  \<^verbatim>\<open>String(x)\<close> of a double \<open>x = m * 2^e\<close> above zero prints the shortest run of decimal digits
  that reads back as \<open>x\<close>, and of several such runs the one nearest to \<open>x\<close>. \<open>shortest m e\<close> is
  that run, as a number \<open>s\<close>, with the place \<open>n\<close> of the decimal point: \<open>x\<close> is about
  \<open>0.s * 10^n\<close>. The texts that read back as \<open>x\<close> lie between the midpoints to the doubles next
  to \<open>x\<close>, the midpoints included when the mantissa is even.
\<close>

fun first_some :: "('a \<Rightarrow> 'b option) \<Rightarrow> 'a list \<Rightarrow> 'b option" where
  "first_some f [] = None"
| "first_some f (x # xs) = (case f x of Some y \<Rightarrow> Some y | None \<Rightarrow> first_some f xs)"

definition shortest :: "int \<Rightarrow> int \<Rightarrow> int \<times> int" where
  "shortest m e =
     (let sh = max 0 (2 - e);
          den = pow2 sh;
          v = m * pow2 (e + sh);
          hi = v + pow2 (e + sh - 1);
          lo = v - (if m = 4503599627370496 \<and> - 1074 < e then pow2 (e + sh - 2) else pow2 (e + sh - 1));
          closed = even m;
          n0 = ((bits v - bits den) * 30103) div 100000;
          n = (case first_some (\<lambda>n. if v * pow10 (- n) < den * pow10 n then Some n else None)
                      [n0 - 1, n0, n0 + 1, n0 + 2, n0 + 3] of
                 Some n \<Rightarrow> n
               | None \<Rightarrow> n0);
          try = (\<lambda>k.
            let a = v * pow10 (k - n); b = den * pow10 (n - k);
                la = lo * pow10 (k - n); ha = hi * pow10 (k - n);
                c0 = a div b; c1 = c0 + 1;
                ok = (\<lambda>c. if closed then la \<le> c * b \<and> c * b \<le> ha else la < c * b \<and> c * b < ha);
                d0 = a - c0 * b; d1 = c1 * b - a
            in if ok c0 \<and> ok c1
               then Some (if d0 < d1 then c0 else if d1 < d0 then c1 else if even c0 then c0 else c1)
               else if ok c0 then Some c0
               else if ok c1 then Some c1
               else None)
      in case first_some (\<lambda>k. map_option (\<lambda>c. (c, k)) (try k))
                [1, 2, 3, 4, 5, 6, 7, 8, 9, 10, 11, 12, 13, 14, 15, 16, 17] of
           Some (c, k) \<Rightarrow> if c = pow10 k then (1, n + 1) else (c, n)
         | None \<Rightarrow> (0, 0))"

text \<open>
  The digits are printed plainly when the decimal point is at one of the places \<open>-5\<close> to
  \<open>21\<close>, and with an exponent otherwise.
\<close>

definition js_format :: "int \<Rightarrow> int \<Rightarrow> string" where
  "js_format s n =
     (let ds = digits s; k = int (length ds)
      in if k \<le> n \<and> n \<le> 21 then ds @ replicate (nat (n - k)) CHR ''0''
         else if 0 < n \<and> n \<le> 21 then take (nat n) ds @ ''.'' @ drop (nat n) ds
         else if - 6 < n \<and> n \<le> 0 then ''0.'' @ replicate (nat (- n)) CHR ''0'' @ ds
         else (if k = 1 then ds else take 1 ds @ ''.'' @ drop 1 ds)
              @ ''e'' @ (if n - 1 < 0 then ''-'' else ''+'') @ digits \<bar>n - 1\<bar>)"

definition show_fraction :: "int \<Rightarrow> int \<Rightarrow> string" where
  "show_fraction num den =
     (case nearest num den of (m, e) \<Rightarrow> (case shortest m e of (s, n) \<Rightarrow> js_format s n))"

text \<open>
  A number the code computes with \<^verbatim>\<open>parseInt\<close> and \<^verbatim>\<open>+\<close> is \<^verbatim>\<open>NaN\<close>, an infinity or a
  double that is an integer: \<open>int option\<close>, with \<open>None\<close> for \<^verbatim>\<open>NaN\<close>, the finite double as the
  integer it is, and the two infinities as \<open>2^1024\<close> and its negative, the least magnitude that
  no finite double has. \<open>double_of\<close> rounds an integer to the double that JavaScript has for it.
  A double of magnitude below \<open>2^53\<close> prints with all its digits.
\<close>

type_synonym number = "int option"

definition infinity :: int where
  "infinity = 2 ^ 1024"

definition double_of :: "int \<Rightarrow> int" where
  "double_of n =
     (if \<bar>n\<bar> < 9007199254740992 then n
      else (case nearest \<bar>n\<bar> 1 of
              (m, e) \<Rightarrow> if 972 \<le> e then sgn n * infinity else sgn n * (m * pow2 e)))"

definition show_double :: "int \<Rightarrow> string" where
  "show_double n =
     (if \<bar>n\<bar> < 9007199254740992 then show_int n
      else (if n < 0 then ''-'' else [])
           @ (if infinity \<le> \<bar>n\<bar> then ''Infinity'' else show_fraction \<bar>n\<bar> 1))"

definition show_number :: "number \<Rightarrow> string" where
  "show_number x = (case x of None \<Rightarrow> ''NaN'' | Some n \<Rightarrow> show_double n)"

text \<open>\<^verbatim>\<open>x + y\<close>: the sum rounded; infinities absorb, and two unlike infinities give \<^verbatim>\<open>NaN\<close>.\<close>

definition add_number :: "number \<Rightarrow> number \<Rightarrow> number" where
  "add_number x y =
     (case x of
        None \<Rightarrow> None
      | Some a \<Rightarrow>
          (case y of
             None \<Rightarrow> None
           | Some b \<Rightarrow>
               if \<bar>a\<bar> < 9007199254740992 \<and> \<bar>b\<bar> < 9007199254740992 then Some (double_of (a + b))
               else if infinity \<le> \<bar>a\<bar> \<and> infinity \<le> \<bar>b\<bar> then (if a = b then Some a else None)
               else if infinity \<le> \<bar>a\<bar> then Some a
               else if infinity \<le> \<bar>b\<bar> then Some b
               else Some (double_of (a + b))))"

text \<open>\<^verbatim>\<open>String(v)\<close>, which is also what a template literal and \<^verbatim>\<open>parseInt\<close> apply to \<open>v\<close>.\<close>

definition String_of :: "jsval option \<Rightarrow> string" where
  "String_of v =
     (case v of None \<Rightarrow> ''undefined'' | Some (Str s) \<Rightarrow> s | Some (Num n) \<Rightarrow> show_int (sint n))"

definition digitVal :: "char \<Rightarrow> int option" where
  "digitVal c =
     map_of (zip ''0123456789abcdef'' [0, 1, 2, 3, 4, 5, 6, 7, 8, 9, 10, 11, 12, 13, 14, 15]
             @ zip ''ABCDEF'' [10, 11, 12, 13, 14, 15]) c"

definition isDigitIn :: "int \<Rightarrow> char \<Rightarrow> bool" where
  "isDigitIn radix c = (case digitVal c of Some d \<Rightarrow> d < radix | None \<Rightarrow> False)"

definition digitsValue :: "int \<Rightarrow> string \<Rightarrow> int" where
  "digitsValue radix ds =
     foldl (\<lambda>a c. a * radix + (case digitVal c of Some d \<Rightarrow> d | None \<Rightarrow> 0)) 0 ds"

text \<open>
  \<^verbatim>\<open>parseInt(s)\<close> with no radix: leading white space is skipped, a sign is read, a
  \<^verbatim>\<open>0x\<close> prefix selects base 16, and the longest run of digits is the value, rounded to a
  double; no digit at all gives \<^verbatim>\<open>NaN\<close>.
\<close>

definition parseInt_string :: "string \<Rightarrow> number" where
  "parseInt_string s =
     (let s1 = dropWhile isWhiteSpace s;
          neg = (s1 \<noteq> [] \<and> hd s1 = CHR ''-'');
          s2 = (if s1 \<noteq> [] \<and> (hd s1 = CHR ''-'' \<or> hd s1 = CHR ''+'') then tl s1 else s1);
          hex = (startsWith s2 ''0x'' \<or> startsWith s2 ''0X'');
          radix = (if hex then 16 else 10);
          s3 = (if hex then drop 2 s2 else s2);
          ds = takeWhile (isDigitIn radix) s3
      in if ds = [] then None
         else Some (double_of ((if neg then - 1 else 1) * digitsValue radix ds)))"

definition parseInt :: "jsval option \<Rightarrow> number" where
  "parseInt v = parseInt_string (String_of v)"

text \<open>
  \<^verbatim>\<open>Object.keys(o)\<close> of an object given by its own properties in insertion order: the keys
  that are array indices come first, in ascending order, then the others as inserted.
\<close>

definition isArrayIndex :: "string \<Rightarrow> bool" where
  "isArrayIndex k =
     (k \<noteq> [] \<and> list_all (isDigitIn 10) k \<and> digits (digitsValue 10 k) = k
      \<and> digitsValue 10 k < 4294967295)"

definition Object_keys :: "(string \<times> 'v) list \<Rightarrow> string list" where
  "Object_keys obj =
     (let ks = map fst obj
      in map digits (sort (map (digitsValue 10) (filter isArrayIndex ks)))
         @ filter (\<lambda>k. \<not> isArrayIndex k) ks)"

text \<open>\<^verbatim>\<open>o[k] = v\<close>: an existing property keeps its place, a new one goes last.\<close>

fun assign :: "'k \<Rightarrow> 'v \<Rightarrow> ('k \<times> 'v) list \<Rightarrow> ('k \<times> 'v) list" where
  "assign k v [] = [(k, v)]"
| "assign k v (p # ps) = (if fst p = k then (k, v) # ps else p # assign k v ps)"

subsection \<open>JSON.parse\<close>

text \<open>
  A string that \<^verbatim>\<open>JSON.parse\<close> builds is a list of UTF-16 code units: an escape
  \<^verbatim>\<open>\uXXXX\<close> names any of them, so these strings are not confined to the code units below
  256. \<open>units\<close> is a text of the model as such a list.
\<close>

type_synonym ustring = "int list"

definition units :: "string \<Rightarrow> ustring" where
  "units s = map of_char s"

text \<open>
  A number of a JSON text is the double nearest to what the numeral denotes: \<open>JNum n\<close> when that
  double is the integer \<open>n\<close> or an infinity, written as for \<open>number\<close> (so \<^verbatim>\<open>1.0\<close>,
  \<^verbatim>\<open>1e2\<close> and \<^verbatim>\<open>1.00000000000000000001\<close> are integers, as \<^verbatim>\<open>Number.isInteger\<close> sees
  them), and \<open>JDec m k\<close> for the double \<open>m / 10^k\<close> otherwise (\<open>k > 0\<close>, \<open>m\<close> not a multiple
  of 10). An object keeps its members in the order of the text, a repeated key included.
\<close>

datatype json =
    JNull
  | JBool bool
  | JNum int
  | JDec int nat
  | JString ustring
  | JArray "json list"
  | JObject "(ustring \<times> json) list"

definition json_ws :: "char \<Rightarrow> bool" where
  "json_ws c = (c \<in> set [CHR 0x20, CHR 0x09, CHR 0x0A, CHR 0x0D])"

definition skip_ws :: "string \<Rightarrow> string" where
  "skip_ws s = dropWhile json_ws s"

fun normalize_dec :: "int \<Rightarrow> nat \<Rightarrow> json" where
  "normalize_dec m 0 = JNum m"
| "normalize_dec m (Suc k) =
     (if m mod 10 = 0 then normalize_dec (m div 10) k else JDec m (Suc k))"

text \<open>
  The double for the numeral \<open>m * 10^e\<close>. A numeral of more than 310 digits before the point
  is beyond every finite double, and one that starts more than 330 places behind the point is
  nearer to zero than to any other double.
\<close>

definition json_number :: "int \<Rightarrow> int \<Rightarrow> json" where
  "json_number m e =
     (let nd = int (length (digits \<bar>m\<bar>))
      in if m = 0 \<or> nd + e < - 330 then JNum 0
         else if 310 < nd + e then JNum (sgn m * infinity)
         else (case nearest (\<bar>m\<bar> * pow10 e) (pow10 (- e)) of
                 (mant, ex) \<Rightarrow>
                   if 972 \<le> ex then JNum (sgn m * infinity)
                   else if 0 \<le> ex then JNum (sgn m * (mant * pow2 ex))
                   else normalize_dec (sgn m * (mant * 5 ^ nat (- ex))) (nat (- ex))))"

text \<open>
  The number grammar: an optional minus, \<open>0\<close> or a digit run without leading zero, an
  optional fraction, an optional exponent. The result is the value and the rest of the text. The
  numeral \<^verbatim>\<open>-0\<close> reads as the negative zero, which prints and compares as zero and is kept as
  zero.
\<close>

definition parse_number :: "string \<Rightarrow> (json \<times> string) option" where
  "parse_number s =
     (let neg = startsWith s ''-'';
          s1 = (if neg then tl s else s);
          ip = (if startsWith s1 ''0'' then ''0'' else takeWhile (isDigitIn 10) s1);
          s2 = drop (length ip) s1;
          fr = (if startsWith s2 ''.'' then takeWhile (isDigitIn 10) (tl s2) else []);
          hasfr = startsWith s2 ''.'';
          s3 = (if hasfr then drop (Suc (length fr)) s2 else s2);
          hasex = (startsWith s3 ''e'' \<or> startsWith s3 ''E'');
          s4 = (if hasex then tl s3 else s3);
          exneg = startsWith s4 ''-'';
          s5 = (if hasex \<and> (startsWith s4 ''-'' \<or> startsWith s4 ''+'') then tl s4 else s4);
          ex = (if hasex then takeWhile (isDigitIn 10) s5 else []);
          s6 = (if hasex then drop (length ex) s5 else s3);
          m = (if neg then - 1 else 1) * digitsValue 10 (ip @ fr);
          e = (if exneg then - 1 else 1) * digitsValue 10 ex - int (length fr)
      in if ip = [] \<or> (hasfr \<and> fr = []) \<or> (hasex \<and> ex = []) then None
         else Some (json_number m e, s6))"

text \<open>
  The body of a string literal, after its opening quote: the code units up to the closing
  quote, with the escapes decoded. A \<^verbatim>\<open>\u\<close> escape gives the code unit its four hexadecimal
  digits name.
\<close>

definition hex4 :: "string \<Rightarrow> int option" where
  "hex4 s = (if length s = 4 \<and> list_all (isDigitIn 16) s then Some (digitsValue 16 s) else None)"

definition escapeChar :: "char \<Rightarrow> char option" where
  "escapeChar c =
     map_of [(CHR 0x22, CHR 0x22), (CHR 0x5C, CHR 0x5C), (CHR ''/'', CHR ''/''),
             (CHR ''b'', CHR 0x08), (CHR ''f'', CHR 0x0C), (CHR ''n'', CHR 0x0A),
             (CHR ''r'', CHR 0x0D), (CHR ''t'', CHR 0x09)] c"

fun parse_string_body :: "string \<Rightarrow> (ustring \<times> string) option" where
  "parse_string_body [] = None"
| "parse_string_body [c] = (if c = CHR 0x22 then Some ([], []) else None)"
| "parse_string_body (c # d # r) =
     (if c = CHR 0x22 then Some ([], d # r)
      else if c = CHR 0x5C then
        (if d = CHR ''u'' then
           (case hex4 (take 4 r) of
              None \<Rightarrow> None
            | Some n \<Rightarrow> map_option (\<lambda>(t, rest). (n # t, rest)) (parse_string_body (drop 4 r)))
         else
           (case escapeChar d of
              None \<Rightarrow> None
            | Some x \<Rightarrow> map_option (\<lambda>(t, rest). (of_char x # t, rest)) (parse_string_body r)))
      else if of_char c < (32 :: int) then None
      else map_option (\<lambda>(t, rest). (of_char c # t, rest)) (parse_string_body (d # r)))"

text \<open>
  Values, array elements and object members, by recursive descent. The first argument bounds
  the depth of the recursion; every call that lowers it has consumed a character or is followed
  by one that does, so twice the length of the text is enough: a larger bound reads nothing
  more, which is proved below.
\<close>

fun parse_value :: "nat \<Rightarrow> string \<Rightarrow> (json \<times> string) option"
  and parse_elements :: "nat \<Rightarrow> json list \<Rightarrow> string \<Rightarrow> (json \<times> string) option"
  and parse_members :: "nat \<Rightarrow> (ustring \<times> json) list \<Rightarrow> string \<Rightarrow> (json \<times> string) option"
where
  "parse_value 0 s = None"
| "parse_value (Suc n) s =
     (let t = skip_ws s in
      if startsWith t ''null'' then Some (JNull, drop 4 t)
      else if startsWith t ''true'' then Some (JBool True, drop 4 t)
      else if startsWith t ''false'' then Some (JBool False, drop 5 t)
      else if startsWith t [CHR 0x22] then
        map_option (\<lambda>(x, rest). (JString x, rest)) (parse_string_body (tl t))
      else if startsWith t ''['' then
        (if startsWith (skip_ws (tl t)) '']'' then Some (JArray [], tl (skip_ws (tl t)))
         else parse_elements n [] (tl t))
      else if startsWith t ''{'' then
        (if startsWith (skip_ws (tl t)) ''}'' then Some (JObject [], tl (skip_ws (tl t)))
         else parse_members n [] (tl t))
      else parse_number t)"
| "parse_elements 0 acc s = None"
| "parse_elements (Suc n) acc s =
     (case parse_value n s of
        None \<Rightarrow> None
      | Some (v, rest) \<Rightarrow>
          (let t = skip_ws rest in
           if startsWith t '','' then parse_elements n (acc @ [v]) (tl t)
           else if startsWith t '']'' then Some (JArray (acc @ [v]), tl t)
           else None))"
| "parse_members 0 acc s = None"
| "parse_members (Suc n) acc s =
     (let t = skip_ws s in
      if \<not> startsWith t [CHR 0x22] then None
      else
        (case parse_string_body (tl t) of
           None \<Rightarrow> None
         | Some (k, rest) \<Rightarrow>
             (let u = skip_ws rest in
              if \<not> startsWith u '':'' then None
              else
                (case parse_value n (tl u) of
                   None \<Rightarrow> None
                 | Some (v, rest') \<Rightarrow>
                     (let w = skip_ws rest' in
                      if startsWith w '','' then parse_members n (acc @ [(k, v)]) (tl w)
                      else if startsWith w ''}'' then Some (JObject (acc @ [(k, v)]), tl w)
                      else None)))))"

text \<open>\<^verbatim>\<open>JSON.parse(text)\<close>: \<open>None\<close> is the \<^verbatim>\<open>SyntaxError\<close> it throws.\<close>

definition JSON_parse :: "string \<Rightarrow> json option" where
  "JSON_parse s =
     (case parse_value (2 * length s + 2) s of
        None \<Rightarrow> None
      | Some (v, rest) \<Rightarrow> if skip_ws rest = [] then Some v else None)"

section \<open>The entity model\<close>

datatype EntityType = clients | workers | tasks

datatype severity = error | warning

record ValidationError =
  row :: nat
  column :: string
  type :: string
  message :: string
  severity :: severity

record DataEntity =
  id_e :: string
  type_e :: EntityType
  data :: "Row list"
  errors :: "ValidationError list"
  warnings :: "ValidationError list"

text \<open>
  A \<^verbatim>\<open>TypeError\<close> is what calling \<^verbatim>\<open>.split\<close> or \<^verbatim>\<open>.toLowerCase\<close> on a number cell throws.
  Nothing in the validation service catches it.
\<close>

datatype exn = TypeError

fun forEach :: "('a \<Rightarrow> 's \<Rightarrow> exn + 's) \<Rightarrow> 'a list \<Rightarrow> 's \<Rightarrow> exn + 's" where
  "forEach f [] s = Inr s"
| "forEach f (x # xs) s = (case f x s of Inl e \<Rightarrow> Inl e | Inr s' \<Rightarrow> forEach f xs s')"

text \<open>\<^verbatim>\<open>cell.split(',')\<close>: only a string has the method.\<close>

definition split_cell :: "jsval option \<Rightarrow> exn + string list" where
  "split_cell v = (case v of Some (Str s) \<Rightarrow> Inr (split_on CHR '','' s) | _ \<Rightarrow> Inl TypeError)"

section \<open>ValidationService\<close>

definition quote :: string where
  "quote = [CHR 0x27]"

definition checkRequiredColumns ::
    "DataEntity \<Rightarrow> string list \<Rightarrow> ValidationError list \<Rightarrow> ValidationError list" where
  "checkRequiredColumns entity requiredColumns errs =
     (case data entity of
        [] \<Rightarrow> errs
      | r0 # _ \<Rightarrow>
          (let availableColumns = Object_keys r0;
               missingColumns = filter (\<lambda>col. col \<notin> set availableColumns) requiredColumns
           in errs @ map (\<lambda>col.
                \<lparr>row = 1, column = col, type = ''missing_column'',
                 message = ''Required column '' @ quote @ col @ quote @ '' is missing'',
                 severity = error\<rparr>) missingColumns))"

text \<open>
  The duplicate and missing ID checks open the row loop of each of the three validators, with
  the ID column of the kind; \<open>seenIds\<close> is the \<^verbatim>\<open>Set\<close> the loop fills.
\<close>

definition checkId ::
    "string \<Rightarrow> nat \<Rightarrow> Row \<Rightarrow> ValidationError list \<times> jsval option set
       \<Rightarrow> ValidationError list \<times> jsval option set" where
  "checkId idColumn rowNum r st =
     (let errs = fst st; seenIds = snd st; v = get r idColumn;
          errs1 = (if v \<in> seenIds
                   then errs @ [\<lparr>row = rowNum, column = idColumn, type = ''duplicate_id'',
                                 message = ''Duplicate '' @ idColumn @ '': '' @ String_of v,
                                 severity = error\<rparr>]
                   else errs);
          seen1 = (if v \<notin> seenIds \<and> truthy v then insert v seenIds else seenIds);
          errs2 = (if \<not> truthy v
                   then errs1 @ [\<lparr>row = rowNum, column = idColumn, type = ''missing_value'',
                                  message = idColumn @ '' is required'', severity = error\<rparr>]
                   else errs1)
      in (errs2, seen1))"

text \<open>\<^verbatim>\<open>isNaN(n) || n < lo\<close>, and with an upper bound.\<close>

definition below :: "number \<Rightarrow> int \<Rightarrow> bool" where
  "below x lo = (case x of None \<Rightarrow> True | Some n \<Rightarrow> n < lo)"

definition outside :: "number \<Rightarrow> int \<Rightarrow> int \<Rightarrow> bool" where
  "outside x lo hi = (case x of None \<Rightarrow> True | Some n \<Rightarrow> n < lo \<or> n > hi)"

definition validateClients_row ::
    "jsval option set \<Rightarrow> nat \<times> Row \<Rightarrow> ValidationError list \<times> jsval option set
       \<Rightarrow> exn + ValidationError list \<times> jsval option set" where
  "validateClients_row validTaskIds ir st =
     (let index = fst ir; r = snd ir; rowNum = index + 1;
          st1 = checkId ''ClientID'' rowNum r st;
          errs1 = fst st1; seen1 = snd st1;
          priority = parseInt (get r ''PriorityLevel'');
          errs2 = (if outside priority 1 5
                   then errs1 @ [\<lparr>row = rowNum, column = ''PriorityLevel'', type = ''invalid_range'',
                                  message = ''PriorityLevel must be between 1 and 5'',
                                  severity = error\<rparr>]
                   else errs1);
          errs3 = (if truthy (get r ''AttributesJSON'')
                      \<and> JSON_parse (String_of (get r ''AttributesJSON'')) = None
                   then errs2 @ [\<lparr>row = rowNum, column = ''AttributesJSON'', type = ''invalid_json'',
                                  message = ''Invalid JSON format in AttributesJSON'',
                                  severity = error\<rparr>]
                   else errs2)
      in if truthy (get r ''RequestedTaskIDs'') then
           (case split_cell (get r ''RequestedTaskIDs'') of
              Inl e \<Rightarrow> Inl e
            | Inr parts \<Rightarrow>
                (let taskIds = map trim parts
                 in Inr (errs3 @ map (\<lambda>taskId.
                           \<lparr>row = rowNum, column = ''RequestedTaskIDs'', type = ''unknown_reference'',
                            message = ''Unknown TaskID reference: '' @ taskId, severity = error\<rparr>)
                         (filter (\<lambda>taskId. Some (Str taskId) \<notin> validTaskIds) taskIds), seen1)))
         else Inr (errs3, seen1))"

definition validateClients :: "DataEntity \<Rightarrow> DataEntity list \<Rightarrow> exn + ValidationError list" where
  "validateClients entity allEntities =
     (let requiredColumns = [''ClientID'', ''ClientName'', ''PriorityLevel'', ''RequestedTaskIDs'', ''GroupTag''];
          tasksEntity = find (\<lambda>e. type_e e = tasks) allEntities;
          validTaskIds = (case tasksEntity of
                            None \<Rightarrow> {}
                          | Some t \<Rightarrow> set (map (\<lambda>task. get task ''TaskID'') (data t)));
          errs0 = checkRequiredColumns entity requiredColumns []
      in map_sum id fst
           (forEach (validateClients_row validTaskIds) (enumerate 0 (data entity)) (errs0, {})))"

text \<open>
  The \<^verbatim>\<open>try\<close> block of an array-shaped field: the parsed array when the text is JSON, is an
  array and holds only integers from 1 up; \<open>None\<close> when one of the three throws.
\<close>

definition isPhase :: "json \<Rightarrow> bool" where
  "isPhase j = (case j of JNum n \<Rightarrow> 1 \<le> n \<and> n < infinity | _ \<Rightarrow> False)"

definition phaseList :: "jsval option \<Rightarrow> json list option" where
  "phaseList v =
     (case JSON_parse (String_of v) of
        Some (JArray xs) \<Rightarrow> if list_all isPhase xs then Some xs else None
      | _ \<Rightarrow> None)"

definition validateWorkers_row ::
    "nat \<times> Row \<Rightarrow> ValidationError list \<times> jsval option set
       \<Rightarrow> exn + ValidationError list \<times> jsval option set" where
  "validateWorkers_row ir st =
     (let index = fst ir; r = snd ir; rowNum = index + 1;
          st1 = checkId ''WorkerID'' rowNum r st;
          errs1 = fst st1; seen1 = snd st1;
          maxLoad = parseInt (get r ''MaxLoadPerPhase'');
          errs2 = (if truthy (get r ''AvailableSlots'') then
                     (case phaseList (get r ''AvailableSlots'') of
                        Some slots \<Rightarrow>
                          (if (case maxLoad of None \<Rightarrow> False | Some m \<Rightarrow> int (length slots) < m)
                           then errs1 @ [\<lparr>row = rowNum, column = ''MaxLoadPerPhase'',
                                          type = ''overloaded_worker'',
                                          message = ''MaxLoadPerPhase ('' @ show_number maxLoad
                                            @ '') exceeds available slots (''
                                            @ show_int (int (length slots)) @ '')'',
                                          severity = warning\<rparr>]
                           else errs1)
                      | None \<Rightarrow>
                          errs1 @ [\<lparr>row = rowNum, column = ''AvailableSlots'', type = ''malformed_list'',
                                    message = ''AvailableSlots must be a valid JSON array of phase numbers'',
                                    severity = error\<rparr>])
                   else errs1);
          errs3 = (if below maxLoad 1
                   then errs2 @ [\<lparr>row = rowNum, column = ''MaxLoadPerPhase'', type = ''invalid_range'',
                                  message = ''MaxLoadPerPhase must be a positive integer'',
                                  severity = error\<rparr>]
                   else errs2)
      in Inr (errs3, seen1))"

definition validateWorkers :: "DataEntity \<Rightarrow> DataEntity list \<Rightarrow> exn + ValidationError list" where
  "validateWorkers entity allEntities =
     (let requiredColumns = [''WorkerID'', ''WorkerName'', ''Skills'', ''AvailableSlots'', ''MaxLoadPerPhase''];
          errs0 = checkRequiredColumns entity requiredColumns []
      in map_sum id fst
           (forEach validateWorkers_row (enumerate 0 (data entity)) (errs0, {})))"

text \<open>
  The skills of all workers, collected before the task rows are read. A number in a
  \<^verbatim>\<open>Skills\<close> cell throws here, so the later filter of qualified workers only ever sees
  string cells.
\<close>

definition collectSkills :: "Row \<Rightarrow> string set \<Rightarrow> exn + string set" where
  "collectSkills worker allWorkerSkills =
     (if truthy (get worker ''Skills'') then
        (case split_cell (get worker ''Skills'') of
           Inl e \<Rightarrow> Inl e
         | Inr parts \<Rightarrow> Inr (allWorkerSkills \<union> set (map trim parts)))
      else Inr allWorkerSkills)"

definition isQualified :: "string list \<Rightarrow> Row \<Rightarrow> bool" where
  "isQualified requiredSkills worker =
     (case get worker ''Skills'' of
        Some (Str s) \<Rightarrow>
          s \<noteq> [] \<and>
          (let workerSkills = map trim (split_on CHR '','' s)
           in list_ex (\<lambda>reqSkill. reqSkill \<in> set workerSkills) requiredSkills)
      | _ \<Rightarrow> False)"

definition validateTasks_row ::
    "Row list \<Rightarrow> string set \<Rightarrow> nat \<times> Row \<Rightarrow> ValidationError list \<times> jsval option set
       \<Rightarrow> exn + ValidationError list \<times> jsval option set" where
  "validateTasks_row workerRows allWorkerSkills ir st =
     (let index = fst ir; r = snd ir; rowNum = index + 1;
          st1 = checkId ''TaskID'' rowNum r st;
          errs1 = fst st1; seen1 = snd st1;
          duration = parseInt (get r ''Duration'');
          errs2 = (if below duration 1
                   then errs1 @ [\<lparr>row = rowNum, column = ''Duration'', type = ''invalid_range'',
                                  message = ''Duration must be a positive integer'',
                                  severity = error\<rparr>]
                   else errs1);
          maxConcurrent = parseInt (get r ''MaxConcurrent'');
          errs3 = (if below maxConcurrent 1
                   then errs2 @ [\<lparr>row = rowNum, column = ''MaxConcurrent'', type = ''invalid_range'',
                                  message = ''MaxConcurrent must be a positive integer'',
                                  severity = error\<rparr>]
                   else errs2);
          malformed = (truthy (get r ''PreferredPhases'') \<and> phaseList (get r ''PreferredPhases'') = None);
          phaseErrs = (if malformed
                       then [\<lparr>row = rowNum, column = ''PreferredPhases'', type = ''malformed_list'',
                               message = ''PreferredPhases must be a valid JSON array of phase numbers'',
                               severity = error\<rparr>]
                       else [])
      in if truthy (get r ''RequiredSkills'') then
           (case split_cell (get r ''RequiredSkills'') of
              Inl e \<Rightarrow> Inl e
            | Inr parts \<Rightarrow>
                (let requiredSkills = map trim parts;
                     uncoveredSkills = filter (\<lambda>skill. skill \<notin> allWorkerSkills) requiredSkills;
                     errs4 = (if length uncoveredSkills > 0
                              then errs3 @ [\<lparr>row = rowNum, column = ''RequiredSkills'',
                                             type = ''skill_coverage'',
                                             message = ''No workers have these required skills: ''
                                               @ join '', '' uncoveredSkills,
                                             severity = warning\<rparr>]
                              else errs3);
                     qualifiedWorkers = filter (isQualified requiredSkills) workerRows;
                     errs5 = (if (case maxConcurrent of
                                    None \<Rightarrow> False
                                  | Some m \<Rightarrow> int (length qualifiedWorkers) < m)
                              then errs4 @ [\<lparr>row = rowNum, column = ''MaxConcurrent'',
                                             type = ''max_concurrency_feasibility'',
                                             message = ''MaxConcurrent ('' @ show_number maxConcurrent
                                               @ '') exceeds qualified workers (''
                                               @ show_int (int (length qualifiedWorkers)) @ '')'',
                                             severity = warning\<rparr>]
                              else errs4)
                 in Inr (errs5 @ phaseErrs, seen1)))
         else Inr (errs3 @ phaseErrs, seen1))"

definition validateTasks :: "DataEntity \<Rightarrow> DataEntity list \<Rightarrow> exn + ValidationError list" where
  "validateTasks entity allEntities =
     (let requiredColumns = [''TaskID'', ''TaskName'', ''Duration'', ''RequiredSkills'', ''MaxConcurrent''];
          workersEntity = find (\<lambda>e. type_e e = workers) allEntities;
          workerRows = (case workersEntity of None \<Rightarrow> [] | Some w \<Rightarrow> data w)
      in case forEach collectSkills workerRows {} of
           Inl e \<Rightarrow> Inl e
         | Inr allWorkerSkills \<Rightarrow>
             (let errs0 = checkRequiredColumns entity requiredColumns []
              in map_sum id fst
                   (forEach (validateTasks_row workerRows allWorkerSkills)
                      (enumerate 0 (data entity)) (errs0, {}))))"

definition validateEntity :: "DataEntity \<Rightarrow> DataEntity list \<Rightarrow> exn + ValidationError list" where
  "validateEntity entity allEntities =
     (case type_e entity of
        clients \<Rightarrow> validateClients entity allEntities
      | workers \<Rightarrow> validateWorkers entity allEntities
      | tasks \<Rightarrow> validateTasks entity allEntities)"

subsection \<open>Phase-slot saturation\<close>

text \<open>
  \<^verbatim>\<open>table[phase]\<close> turns the element \<open>phase\<close> of the parsed array into a property key. A
  nested array prints its elements between commas, \<^verbatim>\<open>null\<close> as nothing. An object prints as
  \<^verbatim>\<open>[object Object]\<close> unless it has a member \<^verbatim>\<open>toString\<close> of its own: that member is no
  function, the inherited \<^verbatim>\<open>valueOf\<close> answers the object itself, and the conversion throws a
  \<^verbatim>\<open>TypeError\<close>, here \<open>None\<close>.
\<close>

fun json_key :: "json \<Rightarrow> ustring option" where
  "json_key JNull = Some (units ''null'')"
| "json_key (JBool b) = Some (units (if b then ''true'' else ''false''))"
| "json_key (JNum n) = Some (units (show_double n))"
| "json_key (JDec m k) =
     Some (units ((if m < 0 then ''-'' else []) @ show_fraction \<bar>m\<bar> (10 ^ k)))"
| "json_key (JString s) = Some s"
| "json_key (JArray xs) =
     map_option (join (units '',''))
       (those (map (\<lambda>x. if x = JNull then Some [] else json_key x) xs))"
| "json_key (JObject kv) =
     (if units ''toString'' \<in> set (map fst kv) then None else Some (units ''[object Object]''))"

text \<open>
  \<^verbatim>\<open>table[k] = v\<close> on a table that starts as \<^verbatim>\<open>{}\<close>. The key \<^verbatim>\<open>__proto__\<close> is the
  inherited accessor, whose setter ignores a value that is no object: no property is added. Any
  other key becomes a property of the table. Under a key that \<^verbatim>\<open>Object.prototype\<close> also has,
  such as \<^verbatim>\<open>constructor\<close>, the value the code stores is a text, the inherited function
  followed by the number; the model keeps a number there. The saturation check reads the tables
  only at keys that print a number, which \<^verbatim>\<open>Object.prototype\<close> does not have, so it never
  reads such a value.
\<close>

definition store :: "ustring \<Rightarrow> 'v \<Rightarrow> (ustring \<times> 'v) list \<Rightarrow> (ustring \<times> 'v) list" where
  "store k v obj = (if k = units ''__proto__'' then obj else assign k v obj)"

text \<open>\<^verbatim>\<open>table[k] || 0\<close>: zero for a key that is absent and for \<^verbatim>\<open>NaN\<close>.\<close>

definition or0_number :: "number option \<Rightarrow> int" where
  "or0_number x = (case x of Some (Some n) \<Rightarrow> n | _ \<Rightarrow> 0)"

text \<open>
  The loop \<^verbatim>\<open>slots.forEach\<close> of a worker. It stops at the first element whose key conversion
  throws; the \<^verbatim>\<open>catch\<close> does nothing, and the table keeps what the elements before it added.
\<close>

fun addSlots ::
    "int \<Rightarrow> json list \<Rightarrow> (ustring \<times> number) list \<Rightarrow> (ustring \<times> number) list" where
  "addSlots maxLoad [] phaseCapacity = phaseCapacity"
| "addSlots maxLoad (phase # slots) phaseCapacity =
     (case json_key phase of
        None \<Rightarrow> phaseCapacity
      | Some k \<Rightarrow>
          addSlots maxLoad slots
            (store k (add_number (Some (or0_number (map_of phaseCapacity k))) (Some maxLoad))
               phaseCapacity))"

text \<open>
  A value that is no array has no \<^verbatim>\<open>forEach\<close>: the call throws, as \<^verbatim>\<open>JSON.parse\<close> does on a
  text that is not JSON, and the worker is skipped.
\<close>

definition addCapacity :: "Row \<Rightarrow> (ustring \<times> number) list \<Rightarrow> (ustring \<times> number) list" where
  "addCapacity worker phaseCapacity =
     (if truthy (get worker ''AvailableSlots'') then
        (case JSON_parse (String_of (get worker ''AvailableSlots'')) of
           Some (JArray slots) \<Rightarrow>
             (let maxLoad = (case parseInt (get worker ''MaxLoadPerPhase'') of
                               None \<Rightarrow> 1
                             | Some m \<Rightarrow> if m = 0 then 1 else m)
              in addSlots maxLoad slots phaseCapacity)
         | _ \<Rightarrow> phaseCapacity)
      else phaseCapacity)"

text \<open>
  The loop \<^verbatim>\<open>phases.forEach\<close> of a task: the table, and whether the loop came to its end
  without a throw.
\<close>

fun addPhases ::
    "number \<Rightarrow> json list \<Rightarrow> (ustring \<times> number) list \<Rightarrow> bool \<times> (ustring \<times> number) list" where
  "addPhases duration [] phaseDemand = (True, phaseDemand)"
| "addPhases duration (phase # phases) phaseDemand =
     (case json_key phase of
        None \<Rightarrow> (False, phaseDemand)
      | Some k \<Rightarrow>
          addPhases duration phases
            (store k (add_number (Some (or0_number (map_of phaseDemand k))) duration) phaseDemand))"

definition addDemand ::
    "nat \<times> Row \<Rightarrow> ValidationError list \<times> (ustring \<times> number) list
       \<Rightarrow> ValidationError list \<times> (ustring \<times> number) list" where
  "addDemand it st =
     (let index = fst it; task = snd it; errs = fst st; phaseDemand = snd st;
          caught = errs @ [\<lparr>row = index + 1, column = ''PreferredPhases'',
                            type = ''phase_slot_saturation'',
                            message = ''Cannot calculate phase demand due to malformed PreferredPhases'',
                            severity = warning\<rparr>]
      in if truthy (get task ''PreferredPhases'') \<and> truthy (get task ''Duration'') then
           (case JSON_parse (String_of (get task ''PreferredPhases'')) of
              Some (JArray phases) \<Rightarrow>
                (let duration = parseInt (get task ''Duration'');
                     looped = addPhases duration phases phaseDemand
                 in (if fst looped then errs else caught, snd looped))
            | _ \<Rightarrow> (caught, phaseDemand))
         else st)"

text \<open>
  \<^verbatim>\<open>Object.keys\<close> and \<^verbatim>\<open>parseInt\<close> on the keys of a table, which are lists of code units.
  The white space \<^verbatim>\<open>parseInt\<close> skips is that of all code units; after it, a code unit from 256
  up ends the number like any character that is no digit, here a question mark.
\<close>

definition isSpaceUnit :: "int \<Rightarrow> bool" where
  "isSpaceUnit u =
     (u \<in> set [9, 10, 11, 12, 13, 32, 160, 5760, 8232, 8233, 8239, 8287, 12288, 65279]
      \<or> (8192 \<le> u \<and> u \<le> 8202))"

definition parseInt_units :: "ustring \<Rightarrow> number" where
  "parseInt_units k =
     parseInt_string
       (map (\<lambda>u. if 0 \<le> u \<and> u < 256 then char_of u else CHR ''?'') (dropWhile isSpaceUnit k))"

definition isIndexKey :: "ustring \<Rightarrow> bool" where
  "isIndexKey k = (list_all (\<lambda>u. 0 \<le> u \<and> u < 256) k \<and> isArrayIndex (map char_of k))"

definition tableKeys :: "(ustring \<times> 'v) list \<Rightarrow> ustring list" where
  "tableKeys obj =
     (let ks = map fst obj
      in map (\<lambda>n. units (digits n)) (sort (map (\<lambda>k. digitsValue 10 (map char_of k)) (filter isIndexKey ks)))
         @ filter (\<lambda>k. \<not> isIndexKey k) ks)"

definition checkSaturation ::
    "(ustring \<times> number) list \<Rightarrow> (ustring \<times> number) list \<Rightarrow> ustring
       \<Rightarrow> ValidationError list \<Rightarrow> ValidationError list" where
  "checkSaturation phaseCapacity phaseDemand phaseStr errs =
     (let phase = parseInt_units phaseStr;
          demand = map_of phaseDemand (units (show_number phase));
          capacity = or0_number (map_of phaseCapacity (units (show_number phase)))
      in case demand of
           Some (Some d) \<Rightarrow>
             (if d > capacity
              then errs @ [\<lparr>row = 1, column = ''Phase Analysis'', type = ''phase_slot_saturation'',
                             message = ''Phase '' @ show_number phase @ '' is oversaturated: demand (''
                               @ show_double d @ '') > capacity ('' @ show_double capacity @ '')'',
                             severity = warning\<rparr>]
              else errs)
         | _ \<Rightarrow> errs)"

definition validatePhaseSlotSaturation :: "DataEntity list \<Rightarrow> ValidationError list" where
  "validatePhaseSlotSaturation allEntities =
     (case find (\<lambda>e. type_e e = tasks) allEntities of
        None \<Rightarrow> []
      | Some tasksEntity \<Rightarrow>
          (case find (\<lambda>e. type_e e = workers) allEntities of
             None \<Rightarrow> []
           | Some workersEntity \<Rightarrow>
               (let phaseCapacity = fold addCapacity (data workersEntity) [];
                    st = fold addDemand (enumerate 0 (data tasksEntity)) ([], []);
                    errs = fst st; phaseDemand = snd st
                in fold (checkSaturation phaseCapacity phaseDemand) (tableKeys phaseDemand) errs)))"

section \<open>The upload pipeline\<close>

text \<open>
  The part of \<^verbatim>\<open>onDrop\<close> that runs once the files are parsed: every entity is validated
  against the uploaded list and its findings are split by severity; then the saturation findings
  are pushed onto the first tasks entity. \<open>None\<close> is the case of no entity, where nothing is
  handed on.
\<close>

fun mapE :: "('a \<Rightarrow> exn + 'b) \<Rightarrow> 'a list \<Rightarrow> exn + 'b list" where
  "mapE f [] = Inr []"
| "mapE f (x # xs) =
     (case f x of
        Inl e \<Rightarrow> Inl e
      | Inr y \<Rightarrow> (case mapE f xs of Inl e \<Rightarrow> Inl e | Inr ys \<Rightarrow> Inr (y # ys)))"

definition validated :: "DataEntity list \<Rightarrow> DataEntity \<Rightarrow> exn + DataEntity" where
  "validated uploadedEntities entity =
     (case validateEntity entity uploadedEntities of
        Inl e \<Rightarrow> Inl e
      | Inr errs \<Rightarrow>
          Inr (entity\<lparr>errors := filter (\<lambda>e. severity e = error) errs,
                      warnings := filter (\<lambda>e. severity e = warning) errs\<rparr>))"

fun updateFirst :: "('a \<Rightarrow> bool) \<Rightarrow> ('a \<Rightarrow> 'a) \<Rightarrow> 'a list \<Rightarrow> 'a list" where
  "updateFirst p f [] = []"
| "updateFirst p f (x # xs) = (if p x then f x # xs else x # updateFirst p f xs)"

definition pushPhaseSlotErrors :: "ValidationError list \<Rightarrow> DataEntity \<Rightarrow> DataEntity" where
  "pushPhaseSlotErrors phaseSlotErrors tasksEntity =
     tasksEntity\<lparr>warnings := warnings tasksEntity @ filter (\<lambda>e. severity e = warning) phaseSlotErrors,
                 errors := errors tasksEntity @ filter (\<lambda>e. severity e = error) phaseSlotErrors\<rparr>"

definition onDrop :: "DataEntity list \<Rightarrow> exn + DataEntity list option" where
  "onDrop uploadedEntities =
     (if length uploadedEntities > 0 then
        (case mapE (validated uploadedEntities) uploadedEntities of
           Inl e \<Rightarrow> Inl e
         | Inr validatedEntities \<Rightarrow>
             (let phaseSlotErrors = validatePhaseSlotSaturation validatedEntities
              in Inr (Some (if length phaseSlotErrors > 0
                            then updateFirst (\<lambda>e. type_e e = tasks)
                                   (pushPhaseSlotErrors phaseSlotErrors) validatedEntities
                            else validatedEntities))))
      else Inr None)"

section \<open>The rule description interpreter\<close>

datatype RuleType = coRun | slotRestriction | loadLimit | phaseWindow | patternMatch | precedence

datatype param = PString string | PNumber int | PArray "string list"

record SuggestedRule =
  type_r :: RuleType
  name :: string
  description :: string
  parameters :: "(string \<times> param) list"

text \<open>
  \<^verbatim>\<open>processNaturalLanguageRule\<close> reads the text of the input box. A blank text is refused
  with an error toast and no rule is suggested: \<open>None\<close>. Otherwise the fields of the suggested
  rule are what the form is set to.
\<close>

definition processNaturalLanguageRule :: "string \<Rightarrow> SuggestedRule option" where
  "processNaturalLanguageRule naturalLanguageRule =
     (if trim naturalLanguageRule = [] then None
      else
        (let ruleLower = toLowerCase naturalLanguageRule
         in if str_includes ruleLower ''together'' \<or> str_includes ruleLower ''co-run'' then
              Some \<lparr>type_r = coRun, name = ''Co-run Rule'', description = naturalLanguageRule,
                    parameters = [(''tasks'', PArray [])]\<rparr>
            else if str_includes ruleLower ''load'' \<or> str_includes ruleLower ''limit'' then
              Some \<lparr>type_r = loadLimit, name = ''Load Limit Rule'', description = naturalLanguageRule,
                    parameters = [(''maxSlotsPerPhase'', PNumber 5), (''workerGroup'', PString [])]\<rparr>
            else if str_includes ruleLower ''phase'' \<or> str_includes ruleLower ''window'' then
              Some \<lparr>type_r = phaseWindow, name = ''Phase Window Rule'', description = naturalLanguageRule,
                    parameters = [(''taskId'', PString []), (''allowedPhases'', PArray [])]\<rparr>
            else
              Some \<lparr>type_r = patternMatch, name = ''Custom Rule'', description = naturalLanguageRule,
                    parameters = [(''pattern'', PString []), (''action'', PString ''apply'')]\<rparr>))"

text \<open>The words of the claims about the interpreter: a text contains a keyword, whatever its case.\<close>

definition hasWord :: "string \<Rightarrow> string \<Rightarrow> bool" where
  "hasWord t w = str_includes (toLowerCase t) w"

definition noTrigger :: "string \<Rightarrow> bool" where
  "noTrigger t = (\<not> hasWord t ''together'' \<and> \<not> hasWord t ''co-run'' \<and> \<not> hasWord t ''load''
      \<and> \<not> hasWord t ''limit'' \<and> \<not> hasWord t ''phase'' \<and> \<not> hasWord t ''window'')"

section \<open>The natural-language query engine\<close>

subsection \<open>Regular expressions\<close>

text \<open>
  The patterns of the query table use literals, the classes \<^verbatim>\<open>\w \s \d .\<close>, greedy \<^verbatim>\<open>+\<close> on a
  class, alternation, capturing groups and one optional group. \<open>matches\<close> lists the ways an
  expression matches at the start of a text, in the order in which a backtracking matcher tries
  them: each is the rest of the text and the captures made. The flag is \<^verbatim>\<open>/i\<close>.
\<close>

datatype cclass = Lit char | WordC | SpaceC | DigitC | AnyC

datatype regex =
    Chr cclass
  | Seq regex regex
  | Alt regex regex
  | Plus cclass
  | Opt regex
  | Group nat regex
  | Eps

definition isWordChar :: "char \<Rightarrow> bool" where
  "isWordChar c = (c \<in> set ''abcdefghijklmnopqrstuvwxyzABCDEFGHIJKLMNOPQRSTUVWXYZ0123456789_'')"

definition classMatches :: "bool \<Rightarrow> cclass \<Rightarrow> char \<Rightarrow> bool" where
  "classMatches icase cl x =
     (case cl of
        Lit c \<Rightarrow> if icase then lowerChar x = lowerChar c else x = c
      | WordC \<Rightarrow> isWordChar x
      | SpaceC \<Rightarrow> isWhiteSpace x
      | DigitC \<Rightarrow> isDigitIn 10 x
      | AnyC \<Rightarrow> x \<noteq> CHR 0x0A \<and> x \<noteq> CHR 0x0D)"

type_synonym captures = "(nat \<times> string) list"

fun matches :: "bool \<Rightarrow> regex \<Rightarrow> string \<times> captures \<Rightarrow> (string \<times> captures) list" where
  "matches icase (Chr cl) st =
     (case fst st of
        [] \<Rightarrow> []
      | x # xs \<Rightarrow> if classMatches icase cl x then [(xs, snd st)] else [])"
| "matches icase (Seq a b) st = concat (map (matches icase b) (matches icase a st))"
| "matches icase (Alt a b) st = matches icase a st @ matches icase b st"
| "matches icase (Plus cl) st =
     map (\<lambda>k. (drop k (fst st), snd st))
       (rev [1..<Suc (length (takeWhile (classMatches icase cl) (fst st)))])"
| "matches icase (Opt r) st = matches icase r st @ [st]"
| "matches icase Eps st = [st]"
| "matches icase (Group i r) st =
     map (\<lambda>res. (fst res, (i, take (length (fst st) - length (fst res)) (fst st)) # snd res))
       (matches icase r st)"

text \<open>\<^verbatim>\<open>text.match(re)\<close> without the global flag: the first match from the leftmost start.\<close>

fun regex_match :: "bool \<Rightarrow> regex \<Rightarrow> string \<Rightarrow> captures option" where
  "regex_match icase r [] = (case matches icase r ([], []) of [] \<Rightarrow> None | res # _ \<Rightarrow> Some (snd res))"
| "regex_match icase r (x # xs) =
     (case matches icase r (x # xs, []) of
        [] \<Rightarrow> regex_match icase r xs
      | res # _ \<Rightarrow> Some (snd res))"

text \<open>Group \<open>i\<close> of a match; a group that took no part is \<^verbatim>\<open>undefined\<close>.\<close>

definition group :: "captures \<Rightarrow> nat \<Rightarrow> string option" where
  "group m i = map_of m i"

text \<open>A group that takes part in every match of its pattern.\<close>

definition the_group :: "captures \<Rightarrow> nat \<Rightarrow> string" where
  "the_group m i = (case group m i of None \<Rightarrow> [] | Some s \<Rightarrow> s)"

text \<open>
  \<^verbatim>\<open>text.split(re)\<close> for an expression without groups that matches no empty text: the
  pieces between the matches, scanning from the left.
\<close>

function regex_split :: "regex \<Rightarrow> string \<Rightarrow> string \<Rightarrow> string list" where
  "regex_split r piece [] = [piece]"
| "regex_split r piece (x # xs) =
     (case matches False r (x # xs, []) of
        [] \<Rightarrow> regex_split r (piece @ [x]) xs
      | res # _ \<Rightarrow>
          if length (fst res) < length (x # xs) then piece # regex_split r [] (fst res)
          else regex_split r (piece @ [x]) xs)"
  by pat_completeness auto
termination
  by (relation "measure (\<lambda>(r, piece, s). length s)") auto

fun lit :: "string \<Rightarrow> regex" where
  "lit [] = Eps"
| "lit [c] = Chr (Lit c)"
| "lit (c # d # cs) = Seq (Chr (Lit c)) (lit (d # cs))"

fun seqs :: "regex list \<Rightarrow> regex" where
  "seqs [] = Eps"
| "seqs [r] = r"
| "seqs (r # s # rs) = Seq r (seqs (s # rs))"

text \<open>An alternation of literals, written \<^verbatim>\<open>(?:a|b|c)\<close>; it has at least one branch.\<close>

fun alts :: "string list \<Rightarrow> regex" where
  "alts [] = Eps"
| "alts [r] = lit r"
| "alts (r # s # rs) = Alt (lit r) (alts (s # rs))"


subsection \<open>The pattern table\<close>

definition spaces :: regex where
  "spaces = Plus SpaceC"

definition wordG :: "nat \<Rightarrow> regex" where
  "wordG i = Group i (Plus WordC)"

definition digitsG :: "nat \<Rightarrow> regex" where
  "digitsG i = Group i (Plus DigitC)"

definition restG :: "nat \<Rightarrow> regex" where
  "restG i = Group i (Plus AnyC)"

datatype pattern =
    Condition | MoreThan | LessThan | EqualTo | InGroup | InPhase | WithSkill

definition pattern_regex :: "pattern \<Rightarrow> regex" where
  "pattern_regex p =
     (case p of
        Condition \<Rightarrow>
          seqs [alts [''all'', ''find'', ''show'', ''get''], spaces, wordG 1, spaces,
                alts [''with'', ''having'', ''where''], spaces, restG 2]
      | MoreThan \<Rightarrow>
          seqs [wordG 1, spaces, alts [''with'', ''having''], spaces, wordG 2, spaces,
                alts [''more than'', ''greater than'', ''>''], spaces, digitsG 3]
      | LessThan \<Rightarrow>
          seqs [wordG 1, spaces, alts [''with'', ''having''], spaces, wordG 2, spaces,
                alts [''less than'', ''fewer than'', ''<''], spaces, digitsG 3]
      | EqualTo \<Rightarrow>
          seqs [wordG 1, spaces, alts [''with'', ''having''], spaces, wordG 2, spaces,
                alts [''equal to'', ''equals'', ''=''], spaces, restG 3]
      | InGroup \<Rightarrow>
          seqs [wordG 1, spaces, alts [''in'', ''from''], spaces, alts [''group'', ''team''], spaces, wordG 2]
      | InPhase \<Rightarrow>
          seqs [wordG 1, spaces, alts [''available'', ''working''], spaces, alts [''in'', ''during''], spaces,
                lit ''phase'', spaces, digitsG 2, Opt (seqs [spaces, lit ''and'', spaces, digitsG 3])]
      | WithSkill \<Rightarrow>
          seqs [wordG 1, spaces, alts [''requiring'', ''needing'', ''with''], spaces,
                alts [''skill'', ''skills''], spaces, restG 2])"

definition pattern_description :: "pattern \<Rightarrow> string" where
  "pattern_description p =
     (case p of
        Condition \<Rightarrow> ''Find entities with specific conditions''
      | MoreThan \<Rightarrow> ''Find entities with numeric comparisons''
      | LessThan \<Rightarrow> ''Find entities with numeric comparisons''
      | EqualTo \<Rightarrow> ''Find entities with exact matches''
      | InGroup \<Rightarrow> ''Find entities in specific groups''
      | InPhase \<Rightarrow> ''Find entities available in specific phases''
      | WithSkill \<Rightarrow> ''Find entities with specific skills'')"

definition queryPatterns :: "pattern list" where
  "queryPatterns = [Condition, MoreThan, LessThan, EqualTo, InGroup, InPhase, WithSkill]"

subsection \<open>The filters\<close>

definition typeName :: "EntityType \<Rightarrow> string" where
  "typeName k = (case k of clients \<Rightarrow> ''clients'' | workers \<Rightarrow> ''workers'' | tasks \<Rightarrow> ''tasks'')"

definition findEntityByType :: "string \<Rightarrow> DataEntity list \<Rightarrow> DataEntity option" where
  "findEntityByType entityType entities =
     (case map_of [(''client'', clients), (''clients'', clients), (''worker'', workers),
                   (''workers'', workers), (''employee'', workers), (''employees'', workers),
                   (''task'', tasks), (''tasks'', tasks), (''job'', tasks), (''jobs'', tasks)]
             (toLowerCase entityType) of
        None \<Rightarrow> None
      | Some targetType \<Rightarrow> find (\<lambda>e. type_e e = targetType) entities)"

text \<open>\<^verbatim>\<open>rows.filter(p)\<close> for a predicate that may throw.\<close>

fun filterE :: "('a \<Rightarrow> exn + bool) \<Rightarrow> 'a list \<Rightarrow> exn + 'a list" where
  "filterE p [] = Inr []"
| "filterE p (x # xs) =
     (case p x of
        Inl e \<Rightarrow> Inl e
      | Inr b \<Rightarrow> (case filterE p xs of Inl e \<Rightarrow> Inl e | Inr ys \<Rightarrow> Inr (if b then x # ys else ys)))"

text \<open>\<^verbatim>\<open>cell.toLowerCase()\<close> on a cell that is not \<^verbatim>\<open>undefined\<close>: only a string has the method.\<close>

definition lower_cell :: "jsval option \<Rightarrow> exn + string" where
  "lower_cell v = (case v of Some (Str s) \<Rightarrow> Inr (toLowerCase s) | _ \<Rightarrow> Inl TypeError)"

text \<open>\<^verbatim>\<open>a || b\<close> on cells.\<close>

definition orElse :: "jsval option \<Rightarrow> jsval option \<Rightarrow> jsval option" where
  "orElse a b = (if truthy a then a else b)"

definition firstNumber :: regex where
  "firstNumber = digitsG 1"

text \<open>\<^verbatim>\<open>x > y\<close> and \<^verbatim>\<open>x < y\<close> on numbers: false when one is \<^verbatim>\<open>NaN\<close>.\<close>

definition gt_number :: "number \<Rightarrow> number \<Rightarrow> bool" where
  "gt_number x y = (case x of None \<Rightarrow> False | Some m \<Rightarrow> (case y of None \<Rightarrow> False | Some n \<Rightarrow> m > n))"

definition processCondition :: "string \<Rightarrow> string \<Rightarrow> DataEntity list \<Rightarrow> exn + Row list" where
  "processCondition entityType condition entities =
     (case findEntityByType entityType entities of
        None \<Rightarrow> Inr []
      | Some targetEntity \<Rightarrow>
          (let conditionLower = toLowerCase condition;
               digitsFound = regex_match False firstNumber condition;
               threshold = (case digitsFound of
                              None \<Rightarrow> None
                            | Some m \<Rightarrow> parseInt_string (the_group m 1))
           in if str_includes conditionLower ''priority'' \<and> str_includes conditionLower ''5'' then
                Inr (filter (\<lambda>item. get item ''PriorityLevel'' = Some (Num 5)
                                   \<or> get item ''PriorityLevel'' = Some (Str ''5''))
                       (data targetEntity))
              else if str_includes conditionLower ''high priority'' then
                Inr (filter (\<lambda>item. case parseInt (get item ''PriorityLevel'') of
                                       None \<Rightarrow> False | Some p \<Rightarrow> p \<ge> 4)
                       (data targetEntity))
              else if str_includes conditionLower ''duration''
                      \<and> (str_includes conditionLower ''more than'' \<or> str_includes conditionLower ''longer than'')
                      \<and> digitsFound \<noteq> None then
                Inr (filter (\<lambda>item. gt_number (parseInt (get item ''Duration'')) threshold)
                       (data targetEntity))
              else if str_includes conditionLower ''skills'' \<and> str_includes conditionLower ''more than''
                      \<and> digitsFound \<noteq> None then
                filterE (\<lambda>item.
                    if \<not> truthy (get item ''Skills'') then Inr False
                    else (case split_cell (get item ''Skills'') of
                            Inl e \<Rightarrow> Inl e
                          | Inr parts \<Rightarrow> Inr (gt_number (Some (int (length parts))) threshold)))
                  (data targetEntity)
              else Inr []))"

text \<open>
  A comparison reads the column the query names, \<^verbatim>\<open>item[actualField]\<close>. The rows of the model
  have the columns of the file and nothing else, so a name that only \<^verbatim>\<open>Object.prototype\<close>
  has, such as \<^verbatim>\<open>toString\<close>, finds nothing here. In JavaScript it finds the inherited
  function: a numeric comparison then fails all the same, since the function is no number, and a
  comparison of texts searches the print of the function, which differs between engines.
\<close>

datatype comparand = CNumber number | CString string

definition fieldMap :: "string \<Rightarrow> string option" where
  "fieldMap f =
     map_of [(''priority'', ''PriorityLevel''), (''duration'', ''Duration''), (''skills'', ''Skills''),
             (''load'', ''MaxLoadPerPhase''), (''concurrent'', ''MaxConcurrent'')] f"

definition processComparison ::
    "string \<Rightarrow> string \<Rightarrow> string \<Rightarrow> comparand \<Rightarrow> DataEntity list \<Rightarrow> exn + Row list" where
  "processComparison entityType field operator val entities =
     (case findEntityByType entityType entities of
        None \<Rightarrow> Inr []
      | Some targetEntity \<Rightarrow>
          (let actualField = (case fieldMap (toLowerCase field) of Some f \<Rightarrow> f | None \<Rightarrow> field)
           in Inr (filter (\<lambda>item.
                     (case get item actualField of
                        None \<Rightarrow> False
                      | Some itemValue \<Rightarrow>
                          (case val of
                             CNumber n \<Rightarrow>
                               (let numValue = parseInt (Some itemValue)
                                in if numValue = None then False
                                   else if operator = ''>'' then gt_number numValue n
                                   else if operator = ''<'' then gt_number n numValue
                                   else if operator = ''='' then n \<noteq> None \<and> numValue = n
                                   else False)
                           | CString s \<Rightarrow>
                               str_includes (toLowerCase (String_of (Some itemValue))) (toLowerCase s))))
                   (data targetEntity))))"

definition processGroupFilter :: "string \<Rightarrow> string \<Rightarrow> DataEntity list \<Rightarrow> exn + Row list" where
  "processGroupFilter entityType groupName entities =
     (case findEntityByType entityType entities of
        None \<Rightarrow> Inr []
      | Some targetEntity \<Rightarrow>
          filterE (\<lambda>item.
              (let groupField = orElse (get item ''GroupTag'')
                                  (orElse (get item ''WorkerGroup'') (get item ''Category''))
               in if \<not> truthy groupField then Inr False
                  else (case lower_cell groupField of
                          Inl e \<Rightarrow> Inl e
                        | Inr g \<Rightarrow> Inr (str_includes g (toLowerCase groupName)))))
            (data targetEntity))"

text \<open>
  \<^verbatim>\<open>parsed.includes(phase)\<close> on what \<^verbatim>\<open>JSON.parse\<close> returned: an array has the element, a
  string has the digits; anything else has no such method and the \<^verbatim>\<open>catch\<close> answers false.
\<close>

definition includesPhase :: "json \<Rightarrow> int \<Rightarrow> bool" where
  "includesPhase parsed phase =
     (case parsed of
        JArray xs \<Rightarrow> JNum phase \<in> set xs
      | JString s \<Rightarrow> str_includes s (units (show_double phase))
      | _ \<Rightarrow> False)"

definition processPhaseFilter :: "string \<Rightarrow> int list \<Rightarrow> DataEntity list \<Rightarrow> exn + Row list" where
  "processPhaseFilter entityType phases entities =
     (case findEntityByType entityType entities of
        None \<Rightarrow> Inr []
      | Some targetEntity \<Rightarrow>
          Inr (filter (\<lambda>item.
                 if truthy (get item ''AvailableSlots'') then
                   (case JSON_parse (String_of (get item ''AvailableSlots'')) of
                      None \<Rightarrow> False
                    | Some availableSlots \<Rightarrow> list_all (includesPhase availableSlots) phases)
                 else if truthy (get item ''PreferredPhases'') then
                   (case JSON_parse (String_of (get item ''PreferredPhases'')) of
                      None \<Rightarrow> False
                    | Some preferredPhases \<Rightarrow> list_ex (includesPhase preferredPhases) phases)
                 else False)
               (data targetEntity)))"

definition skillSeparator :: regex where
  "skillSeparator = seqs [spaces, alts [''or'', ''and''], spaces]"

definition processSkillFilter :: "string \<Rightarrow> string \<Rightarrow> DataEntity list \<Rightarrow> exn + Row list" where
  "processSkillFilter entityType skillsText entities =
     (case findEntityByType entityType entities of
        None \<Rightarrow> Inr []
      | Some targetEntity \<Rightarrow>
          (let requiredSkills = map (\<lambda>s. toLowerCase (trim s)) (regex_split skillSeparator [] skillsText)
           in filterE (\<lambda>item.
                  (let cell = orElse (get item ''Skills'') (orElse (get item ''RequiredSkills'') (Some (Str [])))
                   in case lower_cell cell of
                        Inl e \<Rightarrow> Inl e
                      | Inr itemSkills \<Rightarrow> Inr (list_ex (\<lambda>skill. str_includes itemSkills skill) requiredSkills)))
                (data targetEntity)))"


subsection \<open>processNaturalLanguageQuery\<close>

definition runPattern :: "pattern \<Rightarrow> captures \<Rightarrow> DataEntity list \<Rightarrow> exn + Row list" where
  "runPattern p m entities =
     (case p of
        Condition \<Rightarrow> processCondition (the_group m 1) (the_group m 2) entities
      | MoreThan \<Rightarrow>
          processComparison (the_group m 1) (the_group m 2) ''>''
            (CNumber (parseInt_string (the_group m 3))) entities
      | LessThan \<Rightarrow>
          processComparison (the_group m 1) (the_group m 2) ''<''
            (CNumber (parseInt_string (the_group m 3))) entities
      | EqualTo \<Rightarrow>
          processComparison (the_group m 1) (the_group m 2) ''=''
            (CString (trim (the_group m 3))) entities
      | InGroup \<Rightarrow> processGroupFilter (the_group m 1) (the_group m 2) entities
      | InPhase \<Rightarrow>
          (let phase1 = parseInt_string (the_group m 2);
               phase2 = (case group m 3 of
                           None \<Rightarrow> None
                         | Some s \<Rightarrow> if s = [] then None else parseInt_string s);
               phases = concat (map (\<lambda>x. case x of None \<Rightarrow> [] | Some n \<Rightarrow> if n = 0 then [] else [n])
                                  [phase1, phase2])
           in processPhaseFilter (the_group m 1) phases entities)
      | WithSkill \<Rightarrow> processSkillFilter (the_group m 1) (the_group m 2) entities)"

text \<open>The loop over the table: the first pattern whose expression matches, with its match.\<close>

fun firstMatch :: "pattern list \<Rightarrow> string \<Rightarrow> (pattern \<times> captures) option" where
  "firstMatch [] query = None"
| "firstMatch (p # ps) query =
     (case regex_match True (pattern_regex p) query of
        None \<Rightarrow> firstMatch ps query
      | Some m \<Rightarrow> Some (p, m))"

definition fallbackSearch :: "string \<Rightarrow> DataEntity list \<Rightarrow> Row list" where
  "fallbackSearch query entities =
     (let queryLower = toLowerCase query
      in concat (map (\<lambda>entity.
           map (\<lambda>r. assign ''_entityType'' (Str (typeName (type_e entity))) r)
             (filter (\<lambda>r. list_ex (\<lambda>v. str_includes (toLowerCase (String_of (Some v))) queryLower)
                              (map snd r))
                (data entity)))
         entities))"

definition tagUnknown :: "Row \<Rightarrow> Row" where
  "tagUnknown result =
     (case get result ''_entityType'' of
        None \<Rightarrow> assign ''_entityType'' (Str ''unknown'') result
      | Some v \<Rightarrow> assign ''_entityType'' (if truthy (Some v) then v else Str ''unknown'') result)"

text \<open>
  The result is the rows and the insight shown with them; \<open>Inl\<close> is the case of a filter that
  throws, which the function reports as an error without results.
\<close>

definition processNaturalLanguageQuery :: "string \<Rightarrow> DataEntity list \<Rightarrow> exn + Row list \<times> string" where
  "processNaturalLanguageQuery query entities =
     (case (case firstMatch queryPatterns query of
              None \<Rightarrow> Inr ([], [])
            | Some pm \<Rightarrow>
                (case runPattern (fst pm) (snd pm) entities of
                   Inl e \<Rightarrow> Inl e
                 | Inr rows \<Rightarrow> Inr (rows, ''Processed using pattern: '' @ pattern_description (fst pm)))) of
        Inl e \<Rightarrow> Inl e
      | Inr found \<Rightarrow>
          (let results = (if length (fst found) = 0 then fallbackSearch query entities else fst found);
               insight = (if length (fst found) = 0
                          then ''Used fallback text search across all entities'' else snd found)
           in Inr (map tagUnknown results, insight)))"

section \<open>Properties of the JSON reader\<close>

text \<open>
  Whatever the reader returns has consumed a character, so the recursion is as deep as the text
  is long at most, and the bound of \<open>JSON_parse\<close> never cuts a reading short.
\<close>

lemma startsWith_length: "startsWith s p \<Longrightarrow> length p \<le> length s"
  by (induction s p rule: startsWith.induct) auto

lemma skip_ws_length: "length (skip_ws s) \<le> length s"
  by (simp add: skip_ws_def length_dropWhile_le)

lemma parse_string_body_shorter: "parse_string_body s = Some (x, r) \<Longrightarrow> length r < Suc (length s)"
proof (induction s arbitrary: x r rule: parse_string_body.induct)
  case 1
  then show ?case by simp
next
  case (2 c)
  then show ?case by (simp split: if_splits)
next
  case (3 c d r')
  show ?case
  proof (cases "c = CHR 0x22")
    case True
    with 3(4) show ?thesis by simp
  next
    case nq: False
    show ?thesis
    proof (cases "c = CHR 0x5C")
      case True
      show ?thesis
      proof (cases "d = CHR ''u''")
        case u: True
        from 3(4) nq True u obtain n t where h: "hex4 (take 4 r') = Some n"
          and p: "parse_string_body (drop 4 r') = Some (t, r)"
          by (auto split: option.splits)
        from 3(1)[OF nq True u h p] show ?thesis by simp
      next
        case nu: False
        from 3(4) nq True nu obtain y t where h: "escapeChar d = Some y"
          and p: "parse_string_body r' = Some (t, r)"
          by (auto split: option.splits)
        from 3(2)[OF nq True nu h p] show ?thesis by simp
      qed
    next
      case False
      from 3(4) nq False obtain t where c: "\<not> of_char c < (32 :: int)"
          and p: "parse_string_body (d # r') = Some (t, r)"
        by (auto split: if_splits)
      from 3(3)[OF nq False c p] show ?thesis by simp
    qed
  qed
qed

lemma if_some_rest:
  "(if a then None else Some (x, y)) = Some (v, r) \<Longrightarrow> \<not> a \<and> r = y"
  by (simp split: if_splits)

lemma parse_number_shorter:
  assumes "parse_number s = Some (v, r)"
  shows "length r < length s"
proof -
  define neg where "neg = startsWith s ''-''"
  define s1 where "s1 = (if neg then tl s else s)"
  define ip where "ip = (if startsWith s1 ''0'' then ''0'' else takeWhile (isDigitIn 10) s1)"
  define s2 where "s2 = drop (length ip) s1"
  define fr where "fr = (if startsWith s2 ''.'' then takeWhile (isDigitIn 10) (tl s2) else [])"
  define hasfr where "hasfr = startsWith s2 ''.''"
  define s3 where "s3 = (if hasfr then drop (Suc (length fr)) s2 else s2)"
  define hasex where "hasex = (startsWith s3 ''e'' \<or> startsWith s3 ''E'')"
  define s4 where "s4 = (if hasex then tl s3 else s3)"
  define s5 where "s5 = (if hasex \<and> (startsWith s4 ''-'' \<or> startsWith s4 ''+'') then tl s4 else s4)"
  define ex where "ex = (if hasex then takeWhile (isDigitIn 10) s5 else [])"
  define s6 where "s6 = (if hasex then drop (length ex) s5 else s3)"
  note X = if_some_rest[OF assms[unfolded parse_number_def Let_def]]
  have "\<not> (ip = [] \<or> (hasfr \<and> fr = []) \<or> (hasex \<and> ex = [])) \<and> r = s6"
    unfolding s6_def ex_def s5_def s4_def hasex_def s3_def hasfr_def fr_def s2_def ip_def s1_def neg_def
    by (rule X)
  then have ip: "ip \<noteq> []" and r: "r = s6" by simp_all
  have "length ip \<le> length s1"
    using startsWith_length[of s1 "''0''"] by (auto simp: ip_def length_takeWhile_le)
  with ip have "length s2 < length s1" by (cases ip) (auto simp: s2_def)
  moreover have "length s1 \<le> length s" by (simp add: s1_def)
  moreover have "length s3 \<le> length s2" by (simp add: s3_def)
  moreover have "length s6 \<le> length s3" by (simp add: s6_def s5_def s4_def)
  ultimately show ?thesis using r by simp
qed


lemma startsWith_tl: "startsWith t [c] \<Longrightarrow> length (tl t) < length t"
  by (cases t) auto

lemma drop_shorter: "startsWith t p \<Longrightarrow> p \<noteq> [] \<Longrightarrow> length (drop (length p) t) < length t"
  using startsWith_length[of t p] by (cases t) auto

lemma skip_ws_le: "length r < length (skip_ws s) \<Longrightarrow> length r < length s"
  using skip_ws_length[of s] by simp

lemma tl_skip_ws: "startsWith (skip_ws s) [c] \<Longrightarrow> length (tl (skip_ws s)) < length s"
  using startsWith_tl[of "skip_ws s" c] skip_ws_length[of s] by simp

lemma parse_shorter:
  "(\<forall>s v r. parse_value n s = Some (v, r) \<longrightarrow> length r < length s)
   \<and> (\<forall>acc s v r. parse_elements n acc s = Some (v, r) \<longrightarrow> length r < length s)
   \<and> (\<forall>acc s v r. parse_members n acc s = Some (v, r) \<longrightarrow> length r < length s)"
proof (induction n)
  case 0
  then show ?case by simp
next
  case (Suc n)
  have V: "length r < length s" if "parse_value n s = Some (v, r)" for s v r
    using Suc that by blast
  have E: "length r < length s" if "parse_elements n acc s = Some (v, r)" for acc s v r
    using Suc that by blast
  have M: "length r < length s" if "parse_members n acc s = Some (v, r)" for acc s v r
    using Suc that by blast
  have v: "length r < length s" if pv: "parse_value (Suc n) s = Some (v, r)" for s v r
  proof -
    let ?t = "skip_ws s"
    consider (null) "startsWith ?t ''null''" "r = drop 4 ?t"
      | (true) "startsWith ?t ''true''" "r = drop 4 ?t"
      | (false) "startsWith ?t ''false''" "r = drop 5 ?t"
      | (str) x where "startsWith ?t [CHR 0x22]" "parse_string_body (tl ?t) = Some (x, r)"
      | (arr0) "startsWith ?t ''[''" "startsWith (skip_ws (tl ?t)) '']''" "r = tl (skip_ws (tl ?t))"
      | (arr) "startsWith ?t ''[''" "parse_elements n [] (tl ?t) = Some (v, r)"
      | (obj0) "startsWith ?t ''{''" "startsWith (skip_ws (tl ?t)) ''}''" "r = tl (skip_ws (tl ?t))"
      | (obj) "startsWith ?t ''{''" "parse_members n [] (tl ?t) = Some (v, r)"
      | (num) "parse_number ?t = Some (v, r)"
      using pv by (auto simp: Let_def split: if_splits)
    then show ?thesis
    proof cases
      case null
      with drop_shorter[of ?t "''null''"] skip_ws_length[of s] show ?thesis by simp
    next
      case true
      with drop_shorter[of ?t "''true''"] skip_ws_length[of s] show ?thesis by simp
    next
      case false
      with drop_shorter[of ?t "''false''"] skip_ws_length[of s] show ?thesis by simp
    next
      case str
      from parse_string_body_shorter[OF str(2)] startsWith_tl[OF str(1)] skip_ws_length[of s]
      show ?thesis by simp
    next
      case arr0
      from tl_skip_ws[OF arr0(2)] startsWith_tl[OF arr0(1)] skip_ws_length[of s] arr0(3)
      show ?thesis by simp
    next
      case arr
      from E[OF arr(2)] startsWith_tl[OF arr(1)] skip_ws_length[of s] show ?thesis by simp
    next
      case obj0
      from tl_skip_ws[OF obj0(2)] startsWith_tl[OF obj0(1)] skip_ws_length[of s] obj0(3)
      show ?thesis by simp
    next
      case obj
      from M[OF obj(2)] startsWith_tl[OF obj(1)] skip_ws_length[of s] show ?thesis by simp
    next
      case num
      from parse_number_shorter[OF num] skip_ws_length[of s] show ?thesis by simp
    qed
  qed
  have e: "length r < length s" if pe: "parse_elements (Suc n) acc s = Some (v, r)" for acc s v r
  proof -
    from pe obtain x rest where x: "parse_value n s = Some (x, rest)"
      by (auto split: option.splits)
    let ?t = "skip_ws rest"
    from pe x consider (more) "startsWith ?t '',''" "parse_elements n (acc @ [x]) (tl ?t) = Some (v, r)"
      | (close) "startsWith ?t '']''" "r = tl ?t"
      by (auto simp: Let_def split: if_splits)
    then show ?thesis
    proof cases
      case more
      from E[OF more(2)] tl_skip_ws[OF more(1)] V[OF x] show ?thesis by simp
    next
      case close
      from tl_skip_ws[OF close(1)] V[OF x] close(2) show ?thesis by simp
    qed
  qed
  have m: "length r < length s" if pm: "parse_members (Suc n) acc s = Some (v, r)" for acc s v r
  proof -
    let ?t = "skip_ws s"
    from pm have q: "startsWith ?t [CHR 0x22]"
      by (auto simp: Let_def split: if_splits)
    from pm q obtain k rest where k: "parse_string_body (tl ?t) = Some (k, rest)"
      by (auto simp: Let_def split: option.splits)
    let ?u = "skip_ws rest"
    from pm q k have c: "startsWith ?u '':''"
      by (auto simp: Let_def split: if_splits)
    from pm q k c obtain x rest' where x: "parse_value n (tl ?u) = Some (x, rest')"
      by (auto simp: Let_def split: option.splits)
    let ?w = "skip_ws rest'"
    from pm q k c x consider (more) "startsWith ?w '',''" "parse_members n (acc @ [(k, x)]) (tl ?w) = Some (v, r)"
      | (close) "startsWith ?w ''}''" "r = tl ?w"
      by (auto simp: Let_def split: if_splits)
    then have "length r < length rest'"
    proof cases
      case more
      from M[OF more(2)] tl_skip_ws[OF more(1)] show ?thesis by simp
    next
      case close
      from tl_skip_ws[OF close(1)] close(2) show ?thesis by simp
    qed
    moreover from V[OF x] tl_skip_ws[OF c] have "length rest' < length rest" by simp
    moreover from parse_string_body_shorter[OF k] startsWith_tl[OF q] skip_ws_length[of s]
    have "length rest \<le> length s" by simp
    ultimately show ?thesis by simp
  qed
  from v e m show ?case by blast
qed


text \<open>The texts at which \<open>parse_value\<close> descends into an array or an object that is not empty.\<close>

definition arrayAhead :: "string \<Rightarrow> bool" where
  "arrayAhead s =
     (let t = skip_ws s
      in \<not> startsWith t ''null'' \<and> \<not> startsWith t ''true'' \<and> \<not> startsWith t ''false''
         \<and> \<not> startsWith t [CHR 0x22] \<and> startsWith t ''[''
         \<and> \<not> startsWith (skip_ws (tl t)) '']'')"

definition objectAhead :: "string \<Rightarrow> bool" where
  "objectAhead s =
     (let t = skip_ws s
      in \<not> startsWith t ''null'' \<and> \<not> startsWith t ''true'' \<and> \<not> startsWith t ''false''
         \<and> \<not> startsWith t [CHR 0x22] \<and> \<not> startsWith t ''['' \<and> startsWith t ''{''
         \<and> \<not> startsWith (skip_ws (tl t)) ''}'')"

lemma value_array: "arrayAhead s \<Longrightarrow> parse_value (Suc a) s = parse_elements a [] (tl (skip_ws s))"
  by (simp add: arrayAhead_def Let_def)

lemma value_object: "objectAhead s \<Longrightarrow> parse_value (Suc a) s = parse_members a [] (tl (skip_ws s))"
  by (simp add: objectAhead_def Let_def)

lemma value_flat:
  "\<not> arrayAhead s \<Longrightarrow> \<not> objectAhead s \<Longrightarrow> parse_value (Suc a) s = parse_value (Suc b) s"
  by (auto simp: arrayAhead_def objectAhead_def Let_def)

lemma parse_stable:
  "(\<forall>s v r m. parse_value n s = Some (v, r) \<longrightarrow> 2 * length s \<le> m \<longrightarrow> parse_value m s = Some (v, r))
   \<and> (\<forall>acc s v r m. parse_elements n acc s = Some (v, r) \<longrightarrow> 2 * length s + 1 \<le> m
          \<longrightarrow> parse_elements m acc s = Some (v, r))
   \<and> (\<forall>acc s v r m. parse_members n acc s = Some (v, r) \<longrightarrow> 2 * length s + 1 \<le> m
          \<longrightarrow> parse_members m acc s = Some (v, r))"
proof (induction n)
  case 0
  then show ?case by simp
next
  case (Suc n)
  have V: "parse_value m s = Some (v, r)" if "parse_value n s = Some (v, r)" "2 * length s \<le> m" for s v r m
    using Suc that by blast
  have E: "parse_elements m acc s = Some (v, r)"
    if "parse_elements n acc s = Some (v, r)" "2 * length s + 1 \<le> m" for acc s v r m
    using Suc that by blast
  have M: "parse_members m acc s = Some (v, r)"
    if "parse_members n acc s = Some (v, r)" "2 * length s + 1 \<le> m" for acc s v r m
    using Suc that by blast
  have v: "parse_value m s = Some (v, r)"
    if pv: "parse_value (Suc n) s = Some (v, r)" and m: "2 * length s \<le> m" for s v r m
  proof -
    from pv parse_shorter[of "Suc n"] have len: "length r < length s" by blast
    with m obtain m' where m': "m = Suc m'" by (cases m) auto
    let ?t = "skip_ws s"
    show ?thesis
    proof (cases "arrayAhead s")
      case True
      then have t: "startsWith ?t ''[''" by (simp add: arrayAhead_def Let_def)
      from pv True have "parse_elements n [] (tl ?t) = Some (v, r)" by (simp only: value_array)
      moreover from tl_skip_ws[OF t] m m' have "2 * length (tl ?t) + 1 \<le> m'" by simp
      ultimately have "parse_elements m' [] (tl ?t) = Some (v, r)" by (rule E)
      with True m' show ?thesis by (simp only: value_array)
    next
      case na: False
      show ?thesis
      proof (cases "objectAhead s")
        case True
        then have t: "startsWith ?t ''{''" by (simp add: objectAhead_def Let_def)
        from pv True have "parse_members n [] (tl ?t) = Some (v, r)" by (simp only: value_object)
        moreover from tl_skip_ws[OF t] m m' have "2 * length (tl ?t) + 1 \<le> m'" by simp
        ultimately have "parse_members m' [] (tl ?t) = Some (v, r)" by (rule M)
        with True m' show ?thesis by (simp only: value_object)
      next
        case False
        from value_flat[OF na False, of m' n] pv m' show ?thesis by simp
      qed
    qed
  qed
  have e: "parse_elements m acc s = Some (v, r)"
    if pe: "parse_elements (Suc n) acc s = Some (v, r)" and m: "2 * length s + 1 \<le> m" for acc s v r m
  proof -
    from m obtain m' where m': "m = Suc m'" by (cases m) auto
    from pe obtain x rest where x: "parse_value n s = Some (x, rest)"
      by (auto split: option.splits)
    from x parse_shorter[of n] have len: "length rest < length s" by blast
    from V[OF x, of m'] m m' have x': "parse_value m' s = Some (x, rest)" by simp
    let ?t = "skip_ws rest"
    from pe x consider (more) "startsWith ?t '',''" "parse_elements n (acc @ [x]) (tl ?t) = Some (v, r)"
      | (close) "\<not> startsWith ?t '',''" "startsWith ?t '']''" "r = tl ?t" "v = JArray (acc @ [x])"
      by (auto simp: Let_def split: if_splits)
    then show ?thesis
    proof cases
      case more
      from tl_skip_ws[OF more(1)] len m m' have "2 * length (tl ?t) + 1 \<le> m'" by simp
      from E[OF more(2) this] have "parse_elements m' (acc @ [x]) (tl ?t) = Some (v, r)" .
      with x' more(1) m' show ?thesis by (simp add: Let_def)
    next
      case close
      with x' m' show ?thesis by (simp add: Let_def)
    qed
  qed
  have mm: "parse_members m acc s = Some (v, r)"
    if pm: "parse_members (Suc n) acc s = Some (v, r)" and m: "2 * length s + 1 \<le> m" for acc s v r m
  proof -
    from m obtain m' where m': "m = Suc m'" by (cases m) auto
    let ?t = "skip_ws s"
    from pm have q: "startsWith ?t [CHR 0x22]"
      by (auto simp: Let_def split: if_splits)
    from pm q obtain k rest where k: "parse_string_body (tl ?t) = Some (k, rest)"
      by (auto simp: Let_def split: option.splits)
    let ?u = "skip_ws rest"
    from pm q k have c: "startsWith ?u '':''"
      by (auto simp: Let_def split: if_splits)
    from pm q k c obtain x rest' where x: "parse_value n (tl ?u) = Some (x, rest')"
      by (auto simp: Let_def split: option.splits)
    from parse_string_body_shorter[OF k] startsWith_tl[OF q] skip_ws_length[of s]
    have l1: "length rest \<le> length s" by simp
    from tl_skip_ws[OF c] have l2: "length (tl ?u) < length rest" .
    from x parse_shorter[of n] have l3: "length rest' < length (tl ?u)" by blast
    from V[OF x, of m'] l1 l2 m m' have x': "parse_value m' (tl ?u) = Some (x, rest')" by simp
    let ?w = "skip_ws rest'"
    from pm q k c x consider (more) "startsWith ?w '',''" "parse_members n (acc @ [(k, x)]) (tl ?w) = Some (v, r)"
      | (close) "\<not> startsWith ?w '',''" "startsWith ?w ''}''" "r = tl ?w" "v = JObject (acc @ [(k, x)])"
      by (auto simp: Let_def split: if_splits)
    then show ?thesis
    proof cases
      case more
      from tl_skip_ws[OF more(1)] l1 l2 l3 m m' have "2 * length (tl ?w) + 1 \<le> m'" by simp
      from M[OF more(2) this] have "parse_members m' (acc @ [(k, x)]) (tl ?w) = Some (v, r)" .
      with q k c x' more(1) m' show ?thesis by (simp add: Let_def)
    next
      case close
      with q k c x' m' show ?thesis by (simp add: Let_def)
    qed
  qed
  from v e mm show ?case by blast
qed

text \<open>
  The bound on the depth is enough: what any bound lets the parser read, the bound of
  \<open>JSON_parse\<close> lets it read too, and with the same result.
\<close>

lemma JSON_parse_fuel:
  assumes "parse_value n s = Some (v, r)"
  shows "parse_value (2 * length s + 2) s = Some (v, r)"
  using parse_stable[of n] assms by (meson le_add1)

lemma JSON_parse_any_fuel:
  "JSON_parse s = Some v \<longleftrightarrow> (\<exists>n r. parse_value n s = Some (v, r) \<and> skip_ws r = [])"
proof
  assume "JSON_parse s = Some v"
  then show "\<exists>n r. parse_value n s = Some (v, r) \<and> skip_ws r = []"
    unfolding JSON_parse_def
    by (cases "parse_value (2 * length s + 2) s")
       (auto simp del: parse_value.simps split: if_splits intro: exI[of _ "Suc (Suc (2 * length s))"])
next
  assume "\<exists>n r. parse_value n s = Some (v, r) \<and> skip_ws r = []"
  then obtain n r where "parse_value n s = Some (v, r)" "skip_ws r = []" by blast
  with JSON_parse_fuel[of n s v r] show "JSON_parse s = Some v"
    by (simp add: JSON_parse_def del: parse_value.simps)
qed

section \<open>Properties of the rule description interpreter\<close>

lemma startsWith_set: "startsWith s p \<Longrightarrow> set p \<subseteq> set s"
  by (induction s p rule: startsWith.induct) auto

lemma str_includes_set: "str_includes s p \<Longrightarrow> set p \<subseteq> set s"
proof (induction s p rule: str_includes.induct)
  case (1 needle)
  then show ?case by simp
next
  case (2 x xs needle)
  from 2(2) have "startsWith (x # xs) needle \<or> str_includes xs needle" by simp
  then show ?case
  proof
    assume "startsWith (x # xs) needle"
    then show ?thesis by (rule startsWith_set)
  next
    assume "str_includes xs needle"
    then have "set needle \<subseteq> set xs" by (rule 2(1))
    then show ?thesis by auto
  qed
qed

lemma trim_empty_iff: "trim s = [] \<longleftrightarrow> (\<forall>c \<in> set s. isWhiteSpace c)"
proof
  assume "trim s = []"
  then have a: "\<forall>c \<in> set (dropWhile isWhiteSpace s). isWhiteSpace c"
    by (simp add: trim_def dropWhile_eq_Nil_conv)
  have "dropWhile isWhiteSpace s = []"
  proof (cases "dropWhile isWhiteSpace s")
    case Nil then show ?thesis .
  next
    case (Cons x xs)
    then have "\<not> isWhiteSpace x" by (metis hd_dropWhile list.sel(1) list.distinct(1))
    with a Cons show ?thesis by simp
  qed
  then show "\<forall>c \<in> set s. isWhiteSpace c" by (simp add: dropWhile_eq_Nil_conv)
next
  assume "\<forall>c \<in> set s. isWhiteSpace c"
  then show "trim s = []" by (auto simp: trim_def dropWhile_eq_Nil_conv dest: set_dropWhileD)
qed

lemma lowerChar_ws: "isWhiteSpace c \<Longrightarrow> lowerChar c = c"
  unfolding isWhiteSpace_def by (simp, elim disjE; simp add: lowerChar_def)

lemma blank_no_letter:
  assumes "trim s = []" "x \<in> set p" "\<not> isWhiteSpace x"
  shows "\<not> str_includes (toLowerCase s) p"
proof
  assume "str_includes (toLowerCase s) p"
  then have "x \<in> set (toLowerCase s)" using assms(2) str_includes_set by blast
  then obtain c where "c \<in> set s" "x = lowerChar c" by (auto simp: toLowerCase_def)
  with assms(1,3) show False by (auto simp: trim_empty_iff lowerChar_ws)
qed


lemma blank_hasWord:
  assumes "trim t = []"
  shows "\<not> hasWord t ''together''" "\<not> hasWord t ''co-run''"
  using assms blank_no_letter[of t "CHR ''o''"] by (auto simp: hasWord_def isWhiteSpace_def)

text \<open>
  Claim C8, as the code has it. A blank text, one of nothing but white space (the no-break space
  included), yields no rule at all. Every other text yields a
  rule whose description is the text unchanged; its kind is \<open>coRun\<close> when the text contains
  ``together'' or ``co-run'' in any letter case, and \<open>patternMatch\<close> when it contains none of the
  six keywords. A text that contains ``together'' or ``co-run'' is never blank.
\<close>

theorem rule_interpretation:
  "(trim t = [] \<longrightarrow> processNaturalLanguageRule t = None) \<and>
   (trim t \<noteq> [] \<longrightarrow>
      (\<exists>r. processNaturalLanguageRule t = Some r \<and> description r = t \<and>
           (hasWord t ''together'' \<or> hasWord t ''co-run'' \<longrightarrow> type_r r = coRun) \<and>
           (noTrigger t \<longrightarrow> type_r r = patternMatch))) \<and>
   (hasWord t ''together'' \<or> hasWord t ''co-run'' \<longrightarrow> trim t \<noteq> [])"
  using blank_hasWord[of t]
  by (auto simp: processNaturalLanguageRule_def hasWord_def noTrigger_def Let_def)

theorem rule_interpretation_witness:
  "(\<exists>r. processNaturalLanguageRule ''Run T1 and T2 Together'' = Some r
        \<and> description r = ''Run T1 and T2 Together'' \<and> type_r r = coRun)
   \<and> (\<exists>r. processNaturalLanguageRule ''night shift'' = Some r
        \<and> description r = ''night shift'' \<and> type_r r = patternMatch)
   \<and> processNaturalLanguageRule ''  '' = None
   \<and> processNaturalLanguageRule [CHR 0xA0, CHR 0x09] = None"
proof -
  have a: "hasWord ''Run T1 and T2 Together'' ''together''" by code_simp
  have b: "noTrigger ''night shift''" by code_simp
  have c: "trim ''night shift'' \<noteq> []" by code_simp
  have d: "trim ''  '' = []" by code_simp
  have e: "trim [CHR 0xA0, CHR 0x09] = []" by code_simp
  show ?thesis
    using rule_interpretation[of "''Run T1 and T2 Together''"]
      rule_interpretation[of "''night shift''"] rule_interpretation[of "''  ''"]
      rule_interpretation[of "[CHR 0xA0, CHR 0x09]"] a b c d e
    by blast
qed

text \<open>
  Claim C8 as stated fails on the empty text: it contains none of the keywords, and the
  interpreter suggests no rule for it, so no \<open>patternMatch\<close> rule either.
\<close>

theorem rule_blank_counterexample:
  "noTrigger [] \<and> processNaturalLanguageRule [] = None"
  by code_simp

section \<open>Properties of the validation service\<close>

subsection \<open>The findings of a validation, row by row\<close>

definition idColumn :: "EntityType \<Rightarrow> string" where
  "idColumn k = (case k of clients \<Rightarrow> ''ClientID'' | workers \<Rightarrow> ''WorkerID'' | tasks \<Rightarrow> ''TaskID'')"

definition requiredColumnsOf :: "EntityType \<Rightarrow> string list" where
  "requiredColumnsOf k =
     (case k of
        clients \<Rightarrow> [''ClientID'', ''ClientName'', ''PriorityLevel'', ''RequestedTaskIDs'', ''GroupTag'']
      | workers \<Rightarrow> [''WorkerID'', ''WorkerName'', ''Skills'', ''AvailableSlots'', ''MaxLoadPerPhase'']
      | tasks \<Rightarrow> [''TaskID'', ''TaskName'', ''Duration'', ''RequiredSkills'', ''MaxConcurrent''])"

text \<open>What one pass of a row loop appends, row by row, with the set of seen IDs threaded.\<close>

fun findings ::
    "('a \<Rightarrow> 'e list \<times> 's \<Rightarrow> exn + 'e list \<times> 's) \<Rightarrow> 'a list \<Rightarrow> 's \<Rightarrow> 'e list list" where
  "findings f [] s = []"
| "findings f (x # xs) s =
     (case f x ([], s) of Inl e \<Rightarrow> [] | Inr st \<Rightarrow> fst st # findings f xs (snd st))"

definition appending :: "('a \<Rightarrow> 'e list \<times> 's \<Rightarrow> exn + 'e list \<times> 's) \<Rightarrow> bool" where
  "appending f =
     (\<forall>x errs s. f x (errs, s) =
        (case f x ([], s) of Inl e \<Rightarrow> Inl e | Inr st \<Rightarrow> Inr (errs @ fst st, snd st)))"

lemma forEach_findings:
  assumes "appending f"
  shows "forEach f xs (errs, s) = Inr (errs', s') \<Longrightarrow>
         errs' = errs @ concat (findings f xs s) \<and> length (findings f xs s) = length xs"
proof (induction xs arbitrary: errs s)
  case Nil
  then show ?case by simp
next
  case (Cons x xs)
  from assms have eq: "f x (errs, s) =
        (case f x ([], s) of Inl e \<Rightarrow> Inl e | Inr st \<Rightarrow> Inr (errs @ fst st, snd st))"
    unfolding appending_def by blast
  show ?case
  proof (cases "f x ([], s)")
    case (Inl e)
    with eq Cons.prems show ?thesis by simp
  next
    case (Inr st)
    with eq have step: "f x (errs, s) = Inr (errs @ fst st, snd st)" by simp
    with Cons.prems have "forEach f xs (errs @ fst st, snd st) = Inr (errs', s')" by simp
    from Cons.IH[OF this] Inr show ?thesis by simp
  qed
qed

lemma if_push: "(if b then xs @ [d] else xs) = xs @ (if b then [d] else [])"
  by simp

definition idErrs :: "string \<Rightarrow> nat \<Rightarrow> Row \<Rightarrow> jsval option set \<Rightarrow> ValidationError list" where
  "idErrs c n r seen = fst (checkId c n r ([], seen))"

definition seenAfter :: "string \<Rightarrow> Row \<Rightarrow> jsval option set \<Rightarrow> jsval option set" where
  "seenAfter c r seen = (if truthy (get r c) then insert (get r c) seen else seen)"

lemma fst_checkId: "fst (checkId c n r st) = fst st @ idErrs c n r (snd st)"
  by (simp add: checkId_def idErrs_def Let_def)

lemma snd_checkId: "snd (checkId c n r st) = seenAfter c r (snd st)"
  by (auto simp: checkId_def seenAfter_def Let_def)

lemma clients_appending: "appending (validateClients_row V)"
  unfolding appending_def validateClients_row_def
  by (simp add: Let_def fst_checkId snd_checkId if_push split: sum.split)

lemma workers_appending: "appending validateWorkers_row"
  unfolding appending_def validateWorkers_row_def
  by (simp add: Let_def fst_checkId snd_checkId if_push split: option.split)

lemma tasks_appending: "appending (validateTasks_row W S)"
  unfolding appending_def validateTasks_row_def
  by (simp add: Let_def fst_checkId snd_checkId if_push split: sum.split)

definition seenIds :: "string \<Rightarrow> Row list \<Rightarrow> jsval option set" where
  "seenIds c rs = set (filter truthy (map (\<lambda>r. get r c) rs))"

lemma findings_nth:
  assumes app: "appending f"
    and upd: "\<And>x s st. f x ([], s) = Inr st \<Longrightarrow> snd st = upd x s"
  shows "forEach f xs (errs, s) = Inr res \<Longrightarrow> i < length xs \<Longrightarrow>
         f (xs ! i) ([], fold upd (take i xs) s) = Inr (findings f xs s ! i, fold upd (take (Suc i) xs) s)"
proof (induction xs arbitrary: errs s i)
  case Nil
  then show ?case by simp
next
  case (Cons x xs)
  from app have eq: "f x (errs, s) =
        (case f x ([], s) of Inl e \<Rightarrow> Inl e | Inr st \<Rightarrow> Inr (errs @ fst st, snd st))"
    unfolding appending_def by blast
  show ?case
  proof (cases "f x ([], s)")
    case (Inl e)
    with eq Cons.prems show ?thesis by simp
  next
    case (Inr st)
    then have s': "snd st = upd x s" by (rule upd)
    from Inr eq have step: "f x (errs, s) = Inr (errs @ fst st, snd st)" by simp
    with Cons.prems have rest: "forEach f xs (errs @ fst st, snd st) = Inr res" by simp
    show ?thesis
    proof (cases i)
      case 0
      with Inr s' show ?thesis by (cases st) simp
    next
      case (Suc j)
      with Cons.prems have "j < length xs" by simp
      from Cons.IH[OF rest this] Inr s' Suc show ?thesis by simp
    qed
  qed
qed

lemma fold_seenAfter:
  "fold (\<lambda>ir. seenAfter c (snd ir)) xs s = s \<union> seenIds c (map snd xs)"
  by (induction xs arbitrary: s) (auto simp: seenAfter_def seenIds_def)

lemma map_snd_enumerate: "map snd (enumerate n xs) = xs"
  by (simp add: enumerate_eq_zip)

lemma take_enumerate: "take i (enumerate n xs) = enumerate n (take i xs)"
  by (simp add: enumerate_eq_zip take_zip min_def) 

lemma seen_before_row:
  "fold (\<lambda>ir. seenAfter c (snd ir)) (take i (enumerate 0 rows)) {} = seenIds c (take i rows)"
  by (simp add: fold_seenAfter take_enumerate map_snd_enumerate)

lemma clients_seen: "validateClients_row V x ([], s) = Inr st \<Longrightarrow> snd st = seenAfter ''ClientID'' (snd x) s"
  unfolding validateClients_row_def
  by (auto simp: Let_def snd_checkId split: if_splits sum.splits)

lemma workers_seen: "validateWorkers_row x ([], s) = Inr st \<Longrightarrow> snd st = seenAfter ''WorkerID'' (snd x) s"
  unfolding validateWorkers_row_def
  by (auto simp: Let_def snd_checkId)

lemma tasks_seen: "validateTasks_row W S x ([], s) = Inr st \<Longrightarrow> snd st = seenAfter ''TaskID'' (snd x) s"
  unfolding validateTasks_row_def
  by (auto simp: Let_def snd_checkId split: if_splits sum.splits)

definition validTaskIdsOf :: "DataEntity list \<Rightarrow> jsval option set" where
  "validTaskIdsOf allEntities =
     (case find (\<lambda>e. type_e e = tasks) allEntities of
        None \<Rightarrow> {}
      | Some t \<Rightarrow> set (map (\<lambda>task. get task ''TaskID'') (data t)))"

definition workerRowsOf :: "DataEntity list \<Rightarrow> Row list" where
  "workerRowsOf allEntities =
     (case find (\<lambda>e. type_e e = workers) allEntities of None \<Rightarrow> [] | Some w \<Rightarrow> data w)"

definition allWorkerSkillsOf :: "DataEntity list \<Rightarrow> string set" where
  "allWorkerSkillsOf allEntities =
     (case forEach collectSkills (workerRowsOf allEntities) {} of Inl e \<Rightarrow> {} | Inr S \<Rightarrow> S)"

definition rowStep ::
    "DataEntity \<Rightarrow> DataEntity list \<Rightarrow> nat \<times> Row \<Rightarrow> ValidationError list \<times> jsval option set
       \<Rightarrow> exn + ValidationError list \<times> jsval option set" where
  "rowStep entity allEntities =
     (case type_e entity of
        clients \<Rightarrow> validateClients_row (validTaskIdsOf allEntities)
      | workers \<Rightarrow> validateWorkers_row
      | tasks \<Rightarrow> validateTasks_row (workerRowsOf allEntities) (allWorkerSkillsOf allEntities))"

definition seenBefore :: "DataEntity \<Rightarrow> nat \<Rightarrow> jsval option set" where
  "seenBefore entity i = seenIds (idColumn (type_e entity)) (take i (data entity))"

definition rowFindings :: "DataEntity \<Rightarrow> DataEntity list \<Rightarrow> nat \<Rightarrow> ValidationError list" where
  "rowFindings entity allEntities i =
     (case rowStep entity allEntities (i, data entity ! i) ([], seenBefore entity i) of
        Inl e \<Rightarrow> []
      | Inr st \<Rightarrow> fst st)"

lemma rowStep_appending: "appending (rowStep e all)"
  by (cases "type_e e") (simp_all add: rowStep_def clients_appending workers_appending tasks_appending)

lemma rowStep_seen:
  "rowStep e all x ([], s) = Inr st \<Longrightarrow> snd st = seenAfter (idColumn (type_e e)) (snd x) s"
  by (cases "type_e e") (simp_all add: rowStep_def idColumn_def clients_seen workers_seen tasks_seen)

lemma validateEntity_forEach:
  assumes "validateEntity e all = Inr ds"
  shows "\<exists>s. forEach (rowStep e all) (enumerate 0 (data e))
              (checkRequiredColumns e (requiredColumnsOf (type_e e)) [], {}) = Inr (ds, s)"
proof (cases "type_e e")
  case clients
  with assms show ?thesis
    by (cases "forEach (rowStep e all) (enumerate 0 (data e))
              (checkRequiredColumns e (requiredColumnsOf (type_e e)) [], {})")
       (auto simp: validateEntity_def validateClients_def rowStep_def validTaskIdsOf_def
          requiredColumnsOf_def Let_def)
next
  case workers
  with assms show ?thesis
    by (cases "forEach (rowStep e all) (enumerate 0 (data e))
              (checkRequiredColumns e (requiredColumnsOf (type_e e)) [], {})")
       (auto simp: validateEntity_def validateWorkers_def rowStep_def
          requiredColumnsOf_def Let_def)
next
  case tasks
  with assms show ?thesis
    by (cases "forEach (rowStep e all) (enumerate 0 (data e))
              (checkRequiredColumns e (requiredColumnsOf (type_e e)) [], {})")
       (auto simp: validateEntity_def validateTasks_def rowStep_def workerRowsOf_def
          allWorkerSkillsOf_def requiredColumnsOf_def Let_def split: sum.splits)
qed

lemma validateEntity_rows:
  assumes "validateEntity e all = Inr ds" and "i < length (data e)"
  shows "\<exists>s. rowStep e all (i, data e ! i) ([], seenBefore e i) = Inr (rowFindings e all i, s)"
proof -
  let ?f = "rowStep e all" and ?xs = "enumerate 0 (data e)"
  from assms(1) obtain s where fe:
    "forEach ?f ?xs (checkRequiredColumns e (requiredColumnsOf (type_e e)) [], {}) = Inr (ds, s)"
    using validateEntity_forEach by blast
  have i: "i < length ?xs" using assms(2) by simp
  have "?f (?xs ! i) ([], fold (\<lambda>x. seenAfter (idColumn (type_e e)) (snd x)) (take i ?xs) {})
        = Inr (findings ?f ?xs {} ! i, fold (\<lambda>x. seenAfter (idColumn (type_e e)) (snd x)) (take (Suc i) ?xs) {})"
    by (rule findings_nth[OF rowStep_appending _ fe i]) (rule rowStep_seen)
  moreover have "?xs ! i = (i, data e ! i)" using assms(2) by (simp add: nth_enumerate_eq)
  ultimately have "?f (i, data e ! i) ([], seenBefore e i)
        = Inr (findings ?f ?xs {} ! i, seenIds (idColumn (type_e e)) (take (Suc i) (data e)))"
    by (simp only: seen_before_row seenBefore_def)
  then show ?thesis by (simp add: rowFindings_def)
qed

lemma validateEntity_decomp:
  assumes "validateEntity e all = Inr ds"
  shows "ds = checkRequiredColumns e (requiredColumnsOf (type_e e)) []
              @ concat (map (rowFindings e all) [0..<length (data e)])"
proof -
  let ?f = "rowStep e all" and ?xs = "enumerate 0 (data e)"
  from assms(1) obtain s where fe:
    "forEach ?f ?xs (checkRequiredColumns e (requiredColumnsOf (type_e e)) [], {}) = Inr (ds, s)"
    using validateEntity_forEach by blast
  from forEach_findings[OF rowStep_appending fe]
  have ds: "ds = checkRequiredColumns e (requiredColumnsOf (type_e e)) [] @ concat (findings ?f ?xs {})"
    and len: "length (findings ?f ?xs {}) = length (data e)" by simp_all
  have "findings ?f ?xs {} = map (rowFindings e all) [0..<length (data e)]"
  proof (rule nth_equalityI)
    show "length (findings ?f ?xs {}) = length (map (rowFindings e all) [0..<length (data e)])"
      using len by simp
  next
    fix i assume "i < length (findings ?f ?xs {})"
    then have i: "i < length (data e)" using len by simp
    then have i': "i < length ?xs" by simp
    have "?f (?xs ! i) ([], fold (\<lambda>x. seenAfter (idColumn (type_e e)) (snd x)) (take i ?xs) {})
        = Inr (findings ?f ?xs {} ! i, fold (\<lambda>x. seenAfter (idColumn (type_e e)) (snd x)) (take (Suc i) ?xs) {})"
      by (rule findings_nth[OF rowStep_appending _ fe i']) (rule rowStep_seen)
    moreover have "?xs ! i = (i, data e ! i)" using i by (simp add: nth_enumerate_eq)
    ultimately have "?f (i, data e ! i) ([], seenBefore e i)
        = Inr (findings ?f ?xs {} ! i, seenIds (idColumn (type_e e)) (take (Suc i) (data e)))"
      by (simp only: seen_before_row seenBefore_def)
    then show "findings ?f ?xs {} ! i = map (rowFindings e all) [0..<length (data e)] ! i"
      using i by (simp add: rowFindings_def)
  qed
  with ds show ?thesis by simp
qed

definition duplicateId :: "string \<Rightarrow> nat \<Rightarrow> jsval option \<Rightarrow> ValidationError" where
  "duplicateId c n v =
     \<lparr>row = n, column = c, type = ''duplicate_id'',
      message = ''Duplicate '' @ c @ '': '' @ String_of v, severity = error\<rparr>"

definition missingValue :: "string \<Rightarrow> nat \<Rightarrow> ValidationError" where
  "missingValue c n =
     \<lparr>row = n, column = c, type = ''missing_value'', message = c @ '' is required'',
      severity = error\<rparr>"

definition unknownReference :: "nat \<Rightarrow> string \<Rightarrow> ValidationError" where
  "unknownReference n taskId =
     \<lparr>row = n, column = ''RequestedTaskIDs'', type = ''unknown_reference'',
      message = ''Unknown TaskID reference: '' @ taskId, severity = error\<rparr>"

lemma idErrs_eq:
  "idErrs c n r seen =
     (if get r c \<in> seen then [duplicateId c n (get r c)] else [])
     @ (if \<not> truthy (get r c) then [missingValue c n] else [])"
  by (simp add: idErrs_def checkId_def Let_def duplicateId_def missingValue_def)

lemma if_app: "(if b then xs @ ys else xs @ zs) = xs @ (if b then ys else zs)"
  by simp

lemma if_push2: "(if b then xs @ ys @ [d] else xs @ ys) = xs @ ys @ (if b then [d] else [])"
  by simp

text \<open>The tokens of a cell that are looked up: none when the cell is falsy.\<close>

definition requestedTokens :: "jsval option \<Rightarrow> string list" where
  "requestedTokens v =
     (case v of
        Some (Str t) \<Rightarrow> if t = [] then [] else map trim (split_on CHR '','' t)
      | _ \<Rightarrow> [])"

definition clientChecks :: "jsval option set \<Rightarrow> nat \<Rightarrow> Row \<Rightarrow> ValidationError list" where
  "clientChecks V n r =
     (if outside (parseInt (get r ''PriorityLevel'')) 1 5
      then [\<lparr>row = n, column = ''PriorityLevel'', type = ''invalid_range'',
              message = ''PriorityLevel must be between 1 and 5'', severity = error\<rparr>]
      else [])
     @ (if truthy (get r ''AttributesJSON'') \<and> JSON_parse (String_of (get r ''AttributesJSON'')) = None
        then [\<lparr>row = n, column = ''AttributesJSON'', type = ''invalid_json'',
                message = ''Invalid JSON format in AttributesJSON'', severity = error\<rparr>]
        else [])
     @ map (unknownReference n)
         (filter (\<lambda>taskId. Some (Str taskId) \<notin> V) (requestedTokens (get r ''RequestedTaskIDs'')))"

lemma clients_nf:
  assumes "validateClients_row V (i, r) ([], s) = Inr st"
  shows "fst st = idErrs ''ClientID'' (Suc i) r s @ clientChecks V (Suc i) r"
proof (cases "truthy (get r ''RequestedTaskIDs'')")
  case False
  then have "requestedTokens (get r ''RequestedTaskIDs'') = []"
    by (auto simp: truthy_def requestedTokens_def split: option.splits jsval.splits)
  with assms[symmetric] False show ?thesis
    unfolding validateClients_row_def clientChecks_def
    by (simp add: Let_def fst_checkId if_push split del: if_split cong: if_cong)
next
  case True
  show ?thesis
  proof (cases "get r ''RequestedTaskIDs''")
    case None
    with True show ?thesis by (simp add: truthy_def)
  next
    case (Some v)
    show ?thesis
    proof (cases v)
      case (Str t)
      with True Some have "t \<noteq> []" by (simp add: truthy_def)
      with Some Str have tok: "requestedTokens (get r ''RequestedTaskIDs'') = map trim (split_on CHR '','' t)"
        by (simp add: requestedTokens_def)
      from assms[symmetric] True Some Str show ?thesis
        unfolding validateClients_row_def clientChecks_def tok
        by (simp add: Let_def fst_checkId if_push split_cell_def unknownReference_def split del: if_split)
    next
      case (Num k)
      with assms[symmetric] True Some show ?thesis
        unfolding validateClients_row_def
        by (simp add: Let_def split_cell_def split del: if_split)
    qed
  qed
qed

definition workerChecks :: "nat \<Rightarrow> Row \<Rightarrow> ValidationError list" where
  "workerChecks n r =
     (if truthy (get r ''AvailableSlots'') \<and> phaseList (get r ''AvailableSlots'') = None
      then [\<lparr>row = n, column = ''AvailableSlots'', type = ''malformed_list'',
              message = ''AvailableSlots must be a valid JSON array of phase numbers'',
              severity = error\<rparr>]
      else [])
     @ (if truthy (get r ''AvailableSlots'')
           \<and> (case phaseList (get r ''AvailableSlots'') of
                 None \<Rightarrow> False
               | Some slots \<Rightarrow>
                   (case parseInt (get r ''MaxLoadPerPhase'') of
                      None \<Rightarrow> False
                    | Some m \<Rightarrow> int (length slots) < m))
        then [\<lparr>row = n, column = ''MaxLoadPerPhase'', type = ''overloaded_worker'',
                message = ''MaxLoadPerPhase ('' @ show_number (parseInt (get r ''MaxLoadPerPhase''))
                  @ '') exceeds available slots (''
                  @ show_int (int (length (the (phaseList (get r ''AvailableSlots''))))) @ '')'',
                severity = warning\<rparr>]
        else [])
     @ (if below (parseInt (get r ''MaxLoadPerPhase'')) 1
        then [\<lparr>row = n, column = ''MaxLoadPerPhase'', type = ''invalid_range'',
                message = ''MaxLoadPerPhase must be a positive integer'', severity = error\<rparr>]
        else [])"

lemma workers_nf:
  assumes "validateWorkers_row (i, r) ([], s) = Inr st"
  shows "fst st = idErrs ''WorkerID'' (Suc i) r s @ workerChecks (Suc i) r"
proof (cases "truthy (get r ''AvailableSlots'')")
  case False
  with assms[symmetric] show ?thesis
    unfolding validateWorkers_row_def workerChecks_def
    by (simp add: Let_def fst_checkId if_push split del: if_split cong: if_cong)
next
  case True
  show ?thesis
  proof (cases "phaseList (get r ''AvailableSlots'')")
    case None
    with assms[symmetric] True show ?thesis
      unfolding validateWorkers_row_def workerChecks_def
      by (simp add: Let_def fst_checkId if_push split del: if_split cong: if_cong)
  next
    case (Some slots)
    with assms[symmetric] True show ?thesis
      unfolding validateWorkers_row_def workerChecks_def
      by (simp add: Let_def fst_checkId if_push split del: if_split cong: if_cong)
  qed
qed


definition requiredSkillsOf :: "Row \<Rightarrow> string list" where
  "requiredSkillsOf r = requestedTokens (get r ''RequiredSkills'')"

definition taskChecks :: "Row list \<Rightarrow> string set \<Rightarrow> nat \<Rightarrow> Row \<Rightarrow> ValidationError list" where
  "taskChecks W S n r =
     (if below (parseInt (get r ''Duration'')) 1
      then [\<lparr>row = n, column = ''Duration'', type = ''invalid_range'',
              message = ''Duration must be a positive integer'', severity = error\<rparr>]
      else [])
     @ (if below (parseInt (get r ''MaxConcurrent'')) 1
        then [\<lparr>row = n, column = ''MaxConcurrent'', type = ''invalid_range'',
                message = ''MaxConcurrent must be a positive integer'', severity = error\<rparr>]
        else [])
     @ (if truthy (get r ''RequiredSkills'')
           \<and> length (filter (\<lambda>skill. skill \<notin> S) (requiredSkillsOf r)) > 0
        then [\<lparr>row = n, column = ''RequiredSkills'', type = ''skill_coverage'',
                message = ''No workers have these required skills: ''
                  @ join '', '' (filter (\<lambda>skill. skill \<notin> S) (requiredSkillsOf r)),
                severity = warning\<rparr>]
        else [])
     @ (if truthy (get r ''RequiredSkills'')
           \<and> (case parseInt (get r ''MaxConcurrent'') of
                 None \<Rightarrow> False
               | Some m \<Rightarrow> int (length (filter (isQualified (requiredSkillsOf r)) W)) < m)
        then [\<lparr>row = n, column = ''MaxConcurrent'', type = ''max_concurrency_feasibility'',
                message = ''MaxConcurrent ('' @ show_number (parseInt (get r ''MaxConcurrent''))
                  @ '') exceeds qualified workers (''
                  @ show_int (int (length (filter (isQualified (requiredSkillsOf r)) W))) @ '')'',
                severity = warning\<rparr>]
        else [])
     @ (if truthy (get r ''PreferredPhases'') \<and> phaseList (get r ''PreferredPhases'') = None
        then [\<lparr>row = n, column = ''PreferredPhases'', type = ''malformed_list'',
                message = ''PreferredPhases must be a valid JSON array of phase numbers'',
                severity = error\<rparr>]
        else [])"

lemma tasks_nf:
  assumes "validateTasks_row W S (i, r) ([], s) = Inr st"
  shows "fst st = idErrs ''TaskID'' (Suc i) r s @ taskChecks W S (Suc i) r"
proof (cases "truthy (get r ''RequiredSkills'')")
  case False
  with assms[symmetric] show ?thesis
    unfolding validateTasks_row_def taskChecks_def
    by (simp add: Let_def fst_checkId if_push split del: if_split cong: if_cong)
next
  case True
  show ?thesis
  proof (cases "get r ''RequiredSkills''")
    case None
    with True show ?thesis by (simp add: truthy_def)
  next
    case (Some v)
    show ?thesis
    proof (cases v)
      case (Str t)
      with True Some have "t \<noteq> []" by (simp add: truthy_def)
      with Some Str have tok: "requiredSkillsOf r = map trim (split_on CHR '','' t)"
        by (simp add: requestedTokens_def requiredSkillsOf_def)
      from assms[symmetric] True Some Str show ?thesis
        unfolding validateTasks_row_def taskChecks_def
        by (simp add: Let_def fst_checkId if_push if_push2 if_app split_cell_def tok[symmetric]
            split del: if_split cong: if_cong)
    next
      case (Num k)
      with assms[symmetric] True Some show ?thesis
        unfolding validateTasks_row_def
        by (simp add: Let_def split_cell_def split del: if_split)
    qed
  qed
qed

definition rowChecks :: "DataEntity \<Rightarrow> DataEntity list \<Rightarrow> nat \<Rightarrow> Row \<Rightarrow> ValidationError list" where
  "rowChecks e all n r =
     (case type_e e of
        clients \<Rightarrow> clientChecks (validTaskIdsOf all) n r
      | workers \<Rightarrow> workerChecks n r
      | tasks \<Rightarrow> taskChecks (workerRowsOf all) (allWorkerSkillsOf all) n r)"

lemma rowFindings_eq:
  assumes "validateEntity e all = Inr ds" and "i < length (data e)"
  shows "rowFindings e all i =
           idErrs (idColumn (type_e e)) (Suc i) (data e ! i) (seenBefore e i)
           @ rowChecks e all (Suc i) (data e ! i)"
proof -
  from validateEntity_rows[OF assms] obtain s where
    st: "rowStep e all (i, data e ! i) ([], seenBefore e i) = Inr (rowFindings e all i, s)" by blast
  show ?thesis
  proof (cases "type_e e")
    case clients
    with st clients_nf[of "validTaskIdsOf all" i "data e ! i" "seenBefore e i" "(rowFindings e all i, s)"]
    show ?thesis by (simp add: rowStep_def rowChecks_def idColumn_def)
  next
    case workers
    with st workers_nf[of i "data e ! i" "seenBefore e i" "(rowFindings e all i, s)"]
    show ?thesis by (simp add: rowStep_def rowChecks_def idColumn_def)
  next
    case tasks
    with st tasks_nf[of "workerRowsOf all" "allWorkerSkillsOf all" i "data e ! i" "seenBefore e i" "(rowFindings e all i, s)"]
    show ?thesis by (simp add: rowStep_def rowChecks_def idColumn_def)
  qed
qed

lemma ball_if: "(\<forall>d \<in> set (if b then [x] else []). P d) = (b \<longrightarrow> P x)"
  by (cases b) auto

definition rowCheckOk :: "nat \<Rightarrow> ValidationError \<Rightarrow> bool" where
  "rowCheckOk n d = (row d = n \<and> type d \<noteq> ''missing_column'' \<and> type d \<noteq> ''duplicate_id''
      \<and> type d \<noteq> ''missing_value'')"

lemma clientChecks_ok: "\<forall>d \<in> set (clientChecks V n r). rowCheckOk n d"
  unfolding clientChecks_def
  by (simp add: ball_Un ball_if rowCheckOk_def unknownReference_def split del: if_split)

lemma workerChecks_ok: "\<forall>d \<in> set (workerChecks n r). rowCheckOk n d"
  unfolding workerChecks_def
  by (simp add: ball_Un ball_if rowCheckOk_def split del: if_split)

lemma taskChecks_ok: "\<forall>d \<in> set (taskChecks W S n r). rowCheckOk n d"
  unfolding taskChecks_def
  by (simp add: ball_Un ball_if rowCheckOk_def split del: if_split)

lemma rowChecks_ok: "\<forall>d \<in> set (rowChecks e all n r). rowCheckOk n d"
  by (cases "type_e e") (simp_all add: rowChecks_def clientChecks_ok workerChecks_ok taskChecks_ok)

lemma idErrs_rows: "\<forall>d \<in> set (idErrs c n r s). row d = n \<and> type d \<noteq> ''missing_column''"
  by (simp add: idErrs_eq duplicateId_def missingValue_def ball_Un ball_if split del: if_split)

lemma rowFindings_rows:
  assumes "validateEntity e all = Inr ds" and "i < length (data e)"
  shows "\<forall>d \<in> set (rowFindings e all i). row d = Suc i \<and> type d \<noteq> ''missing_column''"
  using rowChecks_ok[of e all "Suc i" "data e ! i"] idErrs_rows
  by (auto simp: rowFindings_eq[OF assms] rowCheckOk_def)

lemma filter_chunks:
  assumes rows: "\<And>j. j < n \<Longrightarrow> \<forall>d \<in> set (F j). row d = Suc j"
    and i: "i < n"
  shows "filter (\<lambda>d. Q d \<and> row d = Suc i) (concat (map F [0..<n])) = filter Q (F i)"
proof -
  have split: "[0..<n] = [0..<i] @ [i] @ [Suc i..<n]"
  proof -
    have "[0..<n] = [0..<i] @ [i..<n]" using i upt_add_eq_append[of 0 i "n - i"] by simp
    moreover have "[i..<n] = i # [Suc i..<n]" using i by (simp add: upt_conv_Cons)
    ultimately show ?thesis by simp
  qed
  have other: "\<not> (Q d \<and> row d = Suc i)" if "j < n" "j \<noteq> i" "d \<in> set (F j)" for j d
    using rows[OF that(1)] that(2,3) by auto
  have before: "filter (\<lambda>d. Q d \<and> row d = Suc i) (concat (map F [0..<i])) = []"
  proof -
    have "\<not> (Q d \<and> row d = Suc i)" if "d \<in> set (concat (map F [0..<i]))" for d
    proof -
      from that obtain j where "j < i" "d \<in> set (F j)" by auto
      with i show ?thesis using other[of j d] by simp
    qed
    then show ?thesis by (simp add: filter_empty_conv)
  qed
  have after: "filter (\<lambda>d. Q d \<and> row d = Suc i) (concat (map F [Suc i..<n])) = []"
  proof -
    have "\<not> (Q d \<and> row d = Suc i)" if "d \<in> set (concat (map F [Suc i..<n]))" for d
    proof -
      from that obtain j where "Suc i \<le> j" "j < n" "d \<in> set (F j)" by auto
      then show ?thesis using other[of j d] by simp
    qed
    then show ?thesis by (simp add: filter_empty_conv)
  qed
  have here: "filter (\<lambda>d. Q d \<and> row d = Suc i) (F i) = filter Q (F i)"
    using rows[OF i] by (auto intro: filter_cong)
  have "concat (map F [0..<n]) = concat (map F [0..<i]) @ F i @ concat (map F [Suc i..<n])"
    by (subst split) simp
  then show ?thesis
    by (simp add: before after here)
qed

lemma checkRequiredColumns_types:
  "\<forall>d \<in> set (checkRequiredColumns e cols []). type d = ''missing_column'' \<and> row d = 1 \<and> severity d = error"
  by (auto simp: checkRequiredColumns_def Let_def split: list.splits)

lemma validateEntity_row_filter:
  assumes ok: "validateEntity e all = Inr ds" and i: "i < length (data e)"
    and Q: "\<And>d. Q d \<Longrightarrow> type d \<noteq> ''missing_column''"
  shows "filter (\<lambda>d. Q d \<and> row d = Suc i) ds = filter Q (rowFindings e all i)"
proof -
  have "filter (\<lambda>d. Q d \<and> row d = Suc i) (checkRequiredColumns e (requiredColumnsOf (type_e e)) []) = []"
    using checkRequiredColumns_types[of e] Q by (auto simp: filter_empty_conv)
  moreover have "filter (\<lambda>d. Q d \<and> row d = Suc i) (concat (map (rowFindings e all) [0..<length (data e)]))
      = filter Q (rowFindings e all i)"
    by (rule filter_chunks) (use rowFindings_rows[OF ok] i in auto)
  ultimately show ?thesis
    by (simp add: validateEntity_decomp[OF ok])
qed

definition missingColumn :: "string \<Rightarrow> ValidationError" where
  "missingColumn col =
     \<lparr>row = 1, column = col, type = ''missing_column'',
      message = ''Required column '' @ quote @ col @ quote @ '' is missing'', severity = error\<rparr>"

lemma set_Object_keys: "set (Object_keys obj) = fst ` set obj"
proof -
  have "digits ` digitsValue 10 ` {k \<in> fst ` set obj. isArrayIndex k} = {k \<in> fst ` set obj. isArrayIndex k}"
    by (force simp: isArrayIndex_def image_iff)
  then show ?thesis
    by (auto simp: Object_keys_def Let_def image_image)
qed

lemma checkRequiredColumns_eq:
  "checkRequiredColumns e cols [] =
     (case data e of [] \<Rightarrow> []
      | r0 # _ \<Rightarrow> map missingColumn (filter (\<lambda>col. col \<notin> fst ` set r0) cols))"
  by (simp add: checkRequiredColumns_def Let_def missingColumn_def set_Object_keys split: list.split)

lemma filter_type_concat_none:
  assumes "\<And>xs. xs \<in> set xss \<Longrightarrow> \<forall>d \<in> set xs. \<not> Q d"
  shows "filter Q (concat xss) = []"
  using assms by (auto simp: filter_empty_conv)

text \<open>
  Claim C2, as the code has it. When validation returns, its \<open>missing_column\<close> findings are
  exactly these: none for an entity without rows; for an entity with rows, one error at row 1
  for each column required by the kind that is not a key of the first row, in the order of the
  required columns, which are distinct. The rows after the first play no part.
\<close>

theorem required_columns_first_row:
  assumes "validateEntity e all = Inr ds"
  shows "filter (\<lambda>d. type d = ''missing_column'') ds =
           (case data e of
              [] \<Rightarrow> []
            | r0 # _ \<Rightarrow> map missingColumn (filter (\<lambda>col. col \<notin> fst ` set r0) (requiredColumnsOf (type_e e))))
         \<and> distinct (requiredColumnsOf (type_e e))"
proof -
  have rows: "filter (\<lambda>d. type d = ''missing_column'') (concat (map (rowFindings e all) [0..<length (data e)])) = []"
    by (rule filter_type_concat_none) (use rowFindings_rows[OF assms] in auto)
  have cols: "filter (\<lambda>d. type d = ''missing_column'') (checkRequiredColumns e (requiredColumnsOf (type_e e)) [])
      = checkRequiredColumns e (requiredColumnsOf (type_e e)) []"
    using checkRequiredColumns_types[of e] by (simp add: filter_id_conv)
  have "distinct (requiredColumnsOf (type_e e))"
    by (cases "type_e e") (simp_all add: requiredColumnsOf_def)
  with rows cols show ?thesis
    by (simp add: validateEntity_decomp[OF assms] checkRequiredColumns_eq)
qed

definition exampleTasks :: DataEntity where
  "exampleTasks =
     \<lparr>id_e = ''tasks-1'', type_e = tasks,
      data = [[(''TaskID'', Str ''T1''), (''TaskName'', Str ''Build''), (''Duration'', Num 2),
               (''RequiredSkills'', Str ''java''), (''MaxConcurrent'', Num 1)]],
      errors = [], warnings = []\<rparr>"

definition exampleClients :: DataEntity where
  "exampleClients =
     \<lparr>id_e = ''clients-1'', type_e = clients,
      data = [[(''ClientID'', Str ''A''), (''PriorityLevel'', Num 3), (''RequestedTaskIDs'', Str ''T1,T9'')],
              [(''ClientID'', Str ''B''), (''PriorityLevel'', Num 2), (''RequestedTaskIDs'', Str ''T1'')],
              [(''ClientID'', Str ''A''), (''PriorityLevel'', Num 1)]],
      errors = [], warnings = []\<rparr>"

lemma exampleClients_runs:
  "case validateEntity exampleClients [exampleClients, exampleTasks] of Inl e \<Rightarrow> False | Inr ds \<Rightarrow> True"
  by code_simp

theorem required_columns_witness:
  "\<exists>ds. validateEntity exampleClients [exampleClients, exampleTasks] = Inr ds
        \<and> filter (\<lambda>d. type d = ''missing_column'') ds = [missingColumn ''ClientName'', missingColumn ''GroupTag'']"
proof -
  from exampleClients_runs obtain ds where
    ds: "validateEntity exampleClients [exampleClients, exampleTasks] = Inr ds"
    by (auto split: sum.splits)
  have "filter (\<lambda>d. type d = ''missing_column'') ds = [missingColumn ''ClientName'', missingColumn ''GroupTag'']"
    using required_columns_first_row[OF ds]
    by (simp add: exampleClients_def requiredColumnsOf_def)
  with ds show ?thesis by blast
qed

text \<open>
  Claim C2 as stated fails for an entity without rows: \<open>ClientID\<close> is required of a clients
  entity and no row has it, yet validation reports nothing.
\<close>

theorem required_columns_counterexample:
  "data \<lparr>id_e = ''clients-1'', type_e = clients, data = [], errors = [], warnings = []\<rparr> = []
   \<and> ''ClientID'' \<in> set (requiredColumnsOf clients)
   \<and> validateEntity \<lparr>id_e = ''clients-1'', type_e = clients, data = [], errors = [], warnings = []\<rparr> [] = Inr []"
  by code_simp

lemma filter_if: "filter P (if b then [d] else []) = (if b \<and> P d then [d] else [])"
  by simp

lemma idErrs_duplicates:
  "filter (\<lambda>d. type d = ''duplicate_id'') (idErrs c n r s) =
     (if get r c \<in> s then [duplicateId c n (get r c)] else [])"
  by (simp add: idErrs_eq duplicateId_def missingValue_def)

lemma idErrs_missing:
  "filter (\<lambda>d. type d = ''missing_value'') (idErrs c n r s) =
     (if \<not> truthy (get r c) then [missingValue c n] else [])"
  by (simp add: idErrs_eq duplicateId_def missingValue_def)

lemma rowChecks_no_id_findings:
  "filter (\<lambda>d. type d = ''duplicate_id'') (rowChecks e all n r) = []"
  "filter (\<lambda>d. type d = ''missing_value'') (rowChecks e all n r) = []"
  using rowChecks_ok[of e all n r] by (auto simp: filter_empty_conv rowCheckOk_def)

lemma seenBefore_iff:
  "v \<in> seenBefore e i \<longleftrightarrow>
     truthy v \<and> (\<exists>j<i. j < length (data e) \<and> get (data e ! j) (idColumn (type_e e)) = v)"
proof -
  have "x \<in> set (take i xs) \<longleftrightarrow> (\<exists>j<i. j < length xs \<and> xs ! j = x)" for x :: Row and xs
  proof
    assume "x \<in> set (take i xs)"
    then obtain j where "j < length (take i xs)" "take i xs ! j = x"
      by (auto simp: in_set_conv_nth)
    then show "\<exists>j<i. j < length xs \<and> xs ! j = x" by auto
  next
    assume "\<exists>j<i. j < length xs \<and> xs ! j = x"
    then obtain j where j: "j < i" "j < length xs" "xs ! j = x" by blast
    then have "j < length (take i xs)" "take i xs ! j = x" by simp_all
    then show "x \<in> set (take i xs)" by (metis nth_mem)
  qed
  then show ?thesis
    by (auto simp: seenBefore_def seenIds_def)
qed

lemma row_duplicates:
  assumes "validateEntity e all = Inr ds" and "i < length (data e)"
  shows "filter (\<lambda>d. type d = ''duplicate_id'' \<and> row d = Suc i) ds =
           (if get (data e ! i) (idColumn (type_e e)) \<in> seenBefore e i
            then [duplicateId (idColumn (type_e e)) (Suc i) (get (data e ! i) (idColumn (type_e e)))]
            else [])"
  by (subst validateEntity_row_filter[OF assms])
     (simp_all add: rowFindings_eq[OF assms] idErrs_duplicates rowChecks_no_id_findings)

lemma row_missing:
  assumes "validateEntity e all = Inr ds" and "i < length (data e)"
  shows "filter (\<lambda>d. type d = ''missing_value'' \<and> row d = Suc i) ds =
           (if \<not> truthy (get (data e ! i) (idColumn (type_e e)))
            then [missingValue (idColumn (type_e e)) (Suc i)]
            else [])"
  by (subst validateEntity_row_filter[OF assms])
     (simp_all add: rowFindings_eq[OF assms] idErrs_missing rowChecks_no_id_findings)

lemma all_duplicates:
  assumes "validateEntity e all = Inr ds"
  shows "filter (\<lambda>d. type d = ''duplicate_id'') ds =
           concat (map (\<lambda>i. if get (data e ! i) (idColumn (type_e e)) \<in> seenBefore e i
                            then [duplicateId (idColumn (type_e e)) (Suc i) (get (data e ! i) (idColumn (type_e e)))]
                            else [])
                   [0..<length (data e)])"
proof -
  have cols: "filter (\<lambda>d. type d = ''duplicate_id'') (checkRequiredColumns e (requiredColumnsOf (type_e e)) []) = []"
    using checkRequiredColumns_types[of e] by (auto simp: filter_empty_conv)
  have "map (\<lambda>i. filter (\<lambda>d. type d = ''duplicate_id'') (rowFindings e all i)) [0..<length (data e)]
      = map (\<lambda>i. if get (data e ! i) (idColumn (type_e e)) \<in> seenBefore e i
                            then [duplicateId (idColumn (type_e e)) (Suc i) (get (data e ! i) (idColumn (type_e e)))]
                            else []) [0..<length (data e)]"
    by (rule map_cong[OF refl])
       (simp add: rowFindings_eq[OF assms] idErrs_duplicates rowChecks_no_id_findings)
  then have meq: "concat (map (\<lambda>i. filter (\<lambda>d. type d = ''duplicate_id'') (rowFindings e all i)) [0..<length (data e)])
      = concat (map (\<lambda>i. if get (data e ! i) (idColumn (type_e e)) \<in> seenBefore e i
                            then [duplicateId (idColumn (type_e e)) (Suc i) (get (data e ! i) (idColumn (type_e e)))]
                            else []) [0..<length (data e)])"
    by (rule arg_cong)
  have "filter (\<lambda>d. type d = ''duplicate_id'') ds =
      concat (map (\<lambda>i. filter (\<lambda>d. type d = ''duplicate_id'') (rowFindings e all i)) [0..<length (data e)])"
    by (simp add: validateEntity_decomp[OF assms] filter_concat comp_def cols)
  also note meq
  finally show ?thesis .
qed

text \<open>
  Claim C6, as the code has it. When validation returns, row \<open>i + 1\<close> carries a
  \<open>duplicate_id\<close> error exactly when its ID is a value that is not falsy and that an earlier
  row has too, and then exactly one. In particular, rows with the IDs \<open>A, B, A\<close>, where \<open>A\<close> is
  not falsy and \<open>B\<close> is another value, give exactly one \<open>duplicate_id\<close> finding, at row 3.
\<close>

theorem duplicate_id_after_first_occurrence:
  assumes "validateEntity e all = Inr ds"
  shows "(\<forall>i < length (data e).
            filter (\<lambda>d. type d = ''duplicate_id'' \<and> row d = Suc i) ds =
              (if truthy (get (data e ! i) (idColumn (type_e e)))
                  \<and> (\<exists>j<i. get (data e ! j) (idColumn (type_e e)) = get (data e ! i) (idColumn (type_e e)))
               then [duplicateId (idColumn (type_e e)) (Suc i) (get (data e ! i) (idColumn (type_e e)))]
               else []))
         \<and> (\<forall>A B. map (\<lambda>r. get r (idColumn (type_e e))) (data e) = [A, B, A] \<and> truthy A \<and> A \<noteq> B
               \<longrightarrow> filter (\<lambda>d. type d = ''duplicate_id'') ds = [duplicateId (idColumn (type_e e)) 3 A])"
proof (intro conjI allI impI)
  fix i assume i: "i < length (data e)"
  have "get (data e ! i) (idColumn (type_e e)) \<in> seenBefore e i \<longleftrightarrow>
        truthy (get (data e ! i) (idColumn (type_e e)))
          \<and> (\<exists>j<i. get (data e ! j) (idColumn (type_e e)) = get (data e ! i) (idColumn (type_e e)))"
    using i by (auto simp: seenBefore_iff)
  then show "filter (\<lambda>d. type d = ''duplicate_id'' \<and> row d = Suc i) ds =
              (if truthy (get (data e ! i) (idColumn (type_e e)))
                  \<and> (\<exists>j<i. get (data e ! j) (idColumn (type_e e)) = get (data e ! i) (idColumn (type_e e)))
               then [duplicateId (idColumn (type_e e)) (Suc i) (get (data e ! i) (idColumn (type_e e)))]
               else [])"
    by (simp add: row_duplicates[OF assms i])
next
  fix A B
  assume h: "map (\<lambda>r. get r (idColumn (type_e e))) (data e) = [A, B, A] \<and> truthy A \<and> A \<noteq> B"
  let ?c = "idColumn (type_e e)"
  from h have m: "map (\<lambda>r. get r ?c) (data e) = [A, B, A]" and tA: "truthy A"
    and ne: "A \<noteq> B" by blast+
  from m obtain r0 r1 r2 where rows: "data e = [r0, r1, r2]"
    and ids: "get r0 ?c = A" "get r1 ?c = B" "get r2 ?c = A"
    by (auto simp: map_eq_Cons_conv)
  have s0: "seenBefore e 0 = {}" by (simp add: seenBefore_def seenIds_def)
  have s1: "seenBefore e (Suc 0) = {A}"
    by (simp add: seenBefore_def seenIds_def rows ids tA)
  have s2: "A \<in> seenBefore e (Suc (Suc 0))"
    by (auto simp: seenBefore_iff rows ids tA)
  have upt: "[0..<length (data e)] = [0, Suc 0, Suc (Suc 0)]"
    by (simp add: rows upt_rec)
  have three: "Suc (Suc (Suc 0)) = 3" by simp
  show "filter (\<lambda>d. type d = ''duplicate_id'') ds = [duplicateId ?c 3 A]"
    unfolding all_duplicates[OF assms] upt
    using ne s2 by (simp add: rows ids s0 s1 three del: One_nat_def)
qed

theorem duplicate_id_witness:
  "\<exists>ds. validateEntity exampleClients [exampleClients, exampleTasks] = Inr ds
        \<and> filter (\<lambda>d. type d = ''duplicate_id'') ds = [duplicateId ''ClientID'' 3 (Some (Str ''A''))]
        \<and> filter (\<lambda>d. type d = ''duplicate_id'' \<and> row d = 2) ds = []"
proof -
  from exampleClients_runs obtain ds where
    ds: "validateEntity exampleClients [exampleClients, exampleTasks] = Inr ds"
    by (auto split: sum.splits)
  note facts = duplicate_id_after_first_occurrence[OF ds]
  have ids: "map (\<lambda>r. get r (idColumn (type_e exampleClients))) (data exampleClients)
      = [Some (Str ''A''), Some (Str ''B''), Some (Str ''A'')]"
    by (simp add: exampleClients_def idColumn_def get_def)
  from facts ids have a: "filter (\<lambda>d. type d = ''duplicate_id'') ds = [duplicateId ''ClientID'' 3 (Some (Str ''A''))]"
    by (simp add: truthy_def exampleClients_def idColumn_def)
  from facts have "filter (\<lambda>d. type d = ''duplicate_id'' \<and> row d = Suc 1) ds =
              (if truthy (get (data exampleClients ! 1) (idColumn (type_e exampleClients)))
                  \<and> (\<exists>j<1. get (data exampleClients ! j) (idColumn (type_e exampleClients))
                        = get (data exampleClients ! 1) (idColumn (type_e exampleClients)))
               then [duplicateId (idColumn (type_e exampleClients)) (Suc 1)
                      (get (data exampleClients ! 1) (idColumn (type_e exampleClients)))]
               else [])"
    by (simp add: exampleClients_def)
  then have b: "filter (\<lambda>d. type d = ''duplicate_id'' \<and> row d = 2) ds = []"
    by (simp add: exampleClients_def idColumn_def get_def numeral_2_eq_2)
  from ds a b show ?thesis by blast
qed

definition zeroClients :: DataEntity where
  "zeroClients =
     \<lparr>id_e = ''clients-4'', type_e = clients,
      data = [[(''ClientID'', Num 0), (''ClientName'', Str ''Acme''), (''PriorityLevel'', Num 3),
               (''RequestedTaskIDs'', Str []), (''GroupTag'', Str ''Alpha'')],
              [(''ClientID'', Num 7), (''ClientName'', Str ''Bolt''), (''PriorityLevel'', Num 3),
               (''RequestedTaskIDs'', Str []), (''GroupTag'', Str ''Alpha'')],
              [(''ClientID'', Num 0), (''ClientName'', Str ''Cord''), (''PriorityLevel'', Num 3),
               (''RequestedTaskIDs'', Str []), (''GroupTag'', Str ''Alpha'')]],
      errors = [], warnings = []\<rparr>"

text \<open>
  Claim C6 as stated fails when the repeated ID is the number 0. Three clients of a spreadsheet
  carry the IDs 0, 7 and 0: row 3 comes after the first occurrence of its ID, yet validation
  reports no \<open>duplicate_id\<close> error. The seen-set records a value only when it is truthy, and 0
  is not; rows 1 and 3 are reported as lacking an ID instead.
\<close>

theorem duplicate_id_counterexample:
  "get (data zeroClients ! 0) ''ClientID'' = Some (Num 0)
   \<and> get (data zeroClients ! 1) ''ClientID'' = Some (Num 7)
   \<and> get (data zeroClients ! 2) ''ClientID'' = Some (Num 0)
   \<and> length (data zeroClients) = 3
   \<and> validateEntity zeroClients [zeroClients] =
       Inr [\<lparr>row = 1, column = ''ClientID'', type = ''missing_value'',
              message = ''ClientID is required'', severity = error\<rparr>,
            \<lparr>row = 3, column = ''ClientID'', type = ''missing_value'',
              message = ''ClientID is required'', severity = error\<rparr>]"
  by code_simp

text \<open>
  Claim C9. When validation returns, a row whose ID is empty or absent carries exactly one
  \<open>missing_value\<close> error and no \<open>duplicate_id\<close> error, whatever the other rows hold; and no
  row carries both kinds.
\<close>

theorem missing_id_excludes_duplicate:
  assumes "validateEntity e all = Inr ds"
  shows "\<forall>i < length (data e).
           (\<not> truthy (get (data e ! i) (idColumn (type_e e))) \<longrightarrow>
              filter (\<lambda>d. type d = ''missing_value'' \<and> row d = Suc i) ds
                = [missingValue (idColumn (type_e e)) (Suc i)]
              \<and> filter (\<lambda>d. type d = ''duplicate_id'' \<and> row d = Suc i) ds = [])
           \<and> (filter (\<lambda>d. type d = ''missing_value'' \<and> row d = Suc i) ds = []
              \<or> filter (\<lambda>d. type d = ''duplicate_id'' \<and> row d = Suc i) ds = [])"
proof (intro allI impI)
  fix i assume i: "i < length (data e)"
  show "(\<not> truthy (get (data e ! i) (idColumn (type_e e))) \<longrightarrow>
              filter (\<lambda>d. type d = ''missing_value'' \<and> row d = Suc i) ds
                = [missingValue (idColumn (type_e e)) (Suc i)]
              \<and> filter (\<lambda>d. type d = ''duplicate_id'' \<and> row d = Suc i) ds = [])
           \<and> (filter (\<lambda>d. type d = ''missing_value'' \<and> row d = Suc i) ds = []
              \<or> filter (\<lambda>d. type d = ''duplicate_id'' \<and> row d = Suc i) ds = [])"
    by (simp add: row_missing[OF assms i] row_duplicates[OF assms i] seenBefore_iff)
qed

definition exampleWorkers :: DataEntity where
  "exampleWorkers =
     \<lparr>id_e = ''workers-1'', type_e = workers,
      data = [[(''WorkerID'', Str []), (''WorkerName'', Str ''Ann''), (''MaxLoadPerPhase'', Num 1)],
              [(''WorkerID'', Str []), (''WorkerName'', Str ''Bob''), (''MaxLoadPerPhase'', Num 1)],
              [(''WorkerName'', Str ''Cy''), (''MaxLoadPerPhase'', Num 1)]],
      errors = [], warnings = []\<rparr>"

lemma exampleWorkers_runs:
  "case validateEntity exampleWorkers [exampleWorkers] of Inl e \<Rightarrow> False | Inr ds \<Rightarrow> True"
  by code_simp

theorem missing_id_witness:
  "\<exists>ds. validateEntity exampleWorkers [exampleWorkers] = Inr ds
        \<and> filter (\<lambda>d. type d = ''missing_value'' \<and> row d = 2) ds = [missingValue ''WorkerID'' 2]
        \<and> filter (\<lambda>d. type d = ''duplicate_id'' \<and> row d = 2) ds = []"
proof -
  from exampleWorkers_runs obtain ds where
    ds: "validateEntity exampleWorkers [exampleWorkers] = Inr ds"
    by (auto split: sum.splits)
  have i: "1 < length (data exampleWorkers)" by (simp add: exampleWorkers_def)
  have f: "\<not> truthy (get (data exampleWorkers ! 1) (idColumn (type_e exampleWorkers)))"
    by (simp add: exampleWorkers_def idColumn_def get_def truthy_def)
  from missing_id_excludes_duplicate[OF ds] i f
  have "filter (\<lambda>d. type d = ''missing_value'' \<and> row d = Suc 1) ds
                = [missingValue (idColumn (type_e exampleWorkers)) (Suc 1)]
              \<and> filter (\<lambda>d. type d = ''duplicate_id'' \<and> row d = Suc 1) ds = []"
    by blast
  then have "filter (\<lambda>d. type d = ''missing_value'' \<and> row d = 2) ds = [missingValue ''WorkerID'' 2]
        \<and> filter (\<lambda>d. type d = ''duplicate_id'' \<and> row d = 2) ds = []"
    by (simp add: exampleWorkers_def idColumn_def numeral_2_eq_2)
  with ds show ?thesis by blast
qed

lemma idErrs_no_reference:
  "filter (\<lambda>d. type d = ''unknown_reference'') (idErrs c n r s) = []"
  by (simp add: idErrs_eq duplicateId_def missingValue_def)

lemma clientChecks_references:
  "filter (\<lambda>d. type d = ''unknown_reference'') (clientChecks V n r) =
     map (unknownReference n)
       (filter (\<lambda>taskId. Some (Str taskId) \<notin> V) (requestedTokens (get r ''RequestedTaskIDs'')))"
proof -
  have "filter (\<lambda>d. type d = ''unknown_reference'') (map (unknownReference n) xs) = map (unknownReference n) xs" for xs
    by (induction xs) (simp_all add: unknownReference_def)
  then show ?thesis
    unfolding clientChecks_def by (simp add: filter_if)
qed

text \<open>
  The references of a client row whose cell is a text. When validation of a clients entity
  returns, a row whose requested-task-IDs cell is a non-empty string carries one
  \<open>unknown_reference\<close> error for each of its comma-separated, trimmed tokens that is not, as a
  string, the ID cell of a row of the tasks entity, in the order of the tokens, and the message
  of each names its token. In particular the cell \<open>T1,T9\<close>, when \<open>T1\<close> is a task ID and \<open>T9\<close>
  is not, gives exactly one such error, naming \<open>T9\<close>.
\<close>

theorem unknown_reference_per_token:
  assumes "validateEntity e all = Inr ds" and "type_e e = clients"
    and "i < length (data e)"
    and "get (data e ! i) ''RequestedTaskIDs'' = Some (Str t)" and "t \<noteq> []"
  shows "filter (\<lambda>d. type d = ''unknown_reference'' \<and> row d = Suc i) ds =
           map (unknownReference (Suc i))
             (filter (\<lambda>taskId. Some (Str taskId) \<notin> validTaskIdsOf all) (map trim (split_on CHR '','' t)))
         \<and> (t = ''T1,T9'' \<and> Some (Str ''T1'') \<in> validTaskIdsOf all \<and> Some (Str ''T9'') \<notin> validTaskIdsOf all
              \<longrightarrow> filter (\<lambda>d. type d = ''unknown_reference'' \<and> row d = Suc i) ds
                    = [unknownReference (Suc i) ''T9''])"
proof -
  have tok: "requestedTokens (get (data e ! i) ''RequestedTaskIDs'') = map trim (split_on CHR '','' t)"
    using assms(4,5) by (simp add: requestedTokens_def)
  have main: "filter (\<lambda>d. type d = ''unknown_reference'' \<and> row d = Suc i) ds =
           map (unknownReference (Suc i))
             (filter (\<lambda>taskId. Some (Str taskId) \<notin> validTaskIdsOf all) (map trim (split_on CHR '','' t)))"
    by (subst validateEntity_row_filter[OF assms(1,3)])
       (simp_all add: rowFindings_eq[OF assms(1,3)] idErrs_no_reference rowChecks_def assms(2)
          clientChecks_references tok)
  have split: "map trim (split_on CHR '','' ''T1,T9'') = [''T1'', ''T9'']" by code_simp
  have "filter (\<lambda>d. type d = ''unknown_reference'' \<and> row d = Suc i) ds = [unknownReference (Suc i) ''T9'']"
    if "t = ''T1,T9'' \<and> Some (Str ''T1'') \<in> validTaskIdsOf all \<and> Some (Str ''T9'') \<notin> validTaskIdsOf all"
  proof -
    from that main have "filter (\<lambda>d. type d = ''unknown_reference'' \<and> row d = Suc i) ds =
           map (unknownReference (Suc i))
             (filter (\<lambda>taskId. Some (Str taskId) \<notin> validTaskIdsOf all) [''T1'', ''T9''])"
      by (simp only: split)
    with that show ?thesis by simp
  qed
  with main show ?thesis by blast
qed

theorem unknown_reference_witness:
  "\<exists>ds. validateEntity exampleClients [exampleClients, exampleTasks] = Inr ds
        \<and> filter (\<lambda>d. type d = ''unknown_reference'' \<and> row d = 1) ds = [unknownReference 1 ''T9'']"
proof -
  from exampleClients_runs obtain ds where
    ds: "validateEntity exampleClients [exampleClients, exampleTasks] = Inr ds"
    by (auto split: sum.splits)
  have v: "validTaskIdsOf [exampleClients, exampleTasks] = {Some (Str ''T1'')}"
    by (simp add: validTaskIdsOf_def exampleClients_def exampleTasks_def get_def)
  have c: "type_e exampleClients = clients" and i: "0 < length (data exampleClients)"
    and g: "get (data exampleClients ! 0) ''RequestedTaskIDs'' = Some (Str ''T1,T9'')"
    by (simp_all add: exampleClients_def get_def)
  have ne: "''T1,T9'' \<noteq> []" by simp
  from unknown_reference_per_token[OF ds c i g ne, THEN conjunct2] v
  have "filter (\<lambda>d. type d = ''unknown_reference'' \<and> row d = Suc 0) ds = [unknownReference (Suc 0) ''T9'']"
    by simp
  with ds show ?thesis by auto
qed

definition numberedClients :: DataEntity where
  "numberedClients =
     \<lparr>id_e = ''clients-5'', type_e = clients,
      data = [[(''ClientID'', Str ''C1''), (''ClientName'', Str ''Acme''), (''PriorityLevel'', Num 3),
               (''RequestedTaskIDs'', Num 9), (''GroupTag'', Str ''Alpha'')]],
      errors = [], warnings = []\<rparr>"

definition numberedTasks :: DataEntity where
  "numberedTasks =
     \<lparr>id_e = ''tasks-3'', type_e = tasks,
      data = [[(''TaskID'', Num 7), (''TaskName'', Str ''Build''), (''Duration'', Num 2),
               (''RequiredSkills'', Str ''java''), (''MaxConcurrent'', Num 1)]],
      errors = [], warnings = []\<rparr>"

definition sevenClients :: DataEntity where
  "sevenClients =
     \<lparr>id_e = ''clients-6'', type_e = clients,
      data = [[(''ClientID'', Str ''C1''), (''ClientName'', Str ''Acme''), (''PriorityLevel'', Num 3),
               (''RequestedTaskIDs'', Str ''7''), (''GroupTag'', Str ''Alpha'')]],
      errors = [], warnings = []\<rparr>"

text \<open>
  Claim C7 at the number cells of a spreadsheet. A client requests the task 9, a number cell,
  and no task has that ID: the claim asks for one \<open>unknown_reference\<close> error naming 9, but
  \<^verbatim>\<open>split\<close> is no method of a number, validation throws, and the upload hands nothing on.
  Another client requests the task \<open>7\<close> in a text cell, and the task exists with the number 7 as
  its ID: the text is looked up among the raw ID cells, is not found, and is reported as unknown.
\<close>

theorem unknown_reference_number_cells:
  "truthy (get (data numberedClients ! 0) ''RequestedTaskIDs'')
   \<and> validateEntity numberedClients [numberedClients, exampleTasks] = Inl TypeError
   \<and> onDrop [numberedClients, exampleTasks] = Inl TypeError
   \<and> get (data numberedTasks ! 0) ''TaskID'' = Some (Num 7)
   \<and> validateEntity sevenClients [sevenClients, numberedTasks] =
       Inr [\<lparr>row = 1, column = ''RequestedTaskIDs'', type = ''unknown_reference'',
              message = ''Unknown TaskID reference: 7'', severity = error\<rparr>]"
  by code_simp

subsection \<open>Validation is a function of kinds and rows, in row order\<close>

text \<open>Two entities are the same input for validation when they agree on kind and rows.\<close>

definition sameInput :: "DataEntity \<Rightarrow> DataEntity \<Rightarrow> bool" where
  "sameInput e e' = (type_e e = type_e e' \<and> data e = data e')"

text \<open>
  The place of a finding in the order in which the validator of a kind runs the checks of one
  row: this is the order of the three loops of the source. For workers the slots are checked
  before the range of the maximal load, for tasks the preferred phases last.
\<close>

definition codeOrder :: "EntityType \<Rightarrow> ValidationError \<Rightarrow> nat" where
  "codeOrder k d =
     (if type d = ''duplicate_id'' then 0
      else if type d = ''missing_value'' then 1
      else (case k of
              clients \<Rightarrow>
                (if type d = ''invalid_range'' then 2
                 else if type d = ''invalid_json'' then 3
                 else 4)
            | workers \<Rightarrow>
                (if type d = ''malformed_list'' \<or> type d = ''overloaded_worker'' then 2 else 3)
            | tasks \<Rightarrow>
                (if type d = ''invalid_range'' \<and> column d = ''Duration'' then 2
                 else if type d = ''invalid_range'' then 3
                 else if type d = ''skill_coverage'' then 4
                 else if type d = ''max_concurrency_feasibility'' then 5
                 else 6)))"

definition rowMajor :: "EntityType \<Rightarrow> ValidationError \<Rightarrow> ValidationError \<Rightarrow> bool" where
  "rowMajor k a b = (row a < row b \<or> (row a = row b \<and> codeOrder k a \<le> codeOrder k b))"

lemma find_sameInput:
  assumes "list_all2 sameInput all all'"
  shows "map_option data (find (\<lambda>e. type_e e = k) all) = map_option data (find (\<lambda>e. type_e e = k) all')"
  using assms by (induction rule: list_all2_induct) (auto simp: sameInput_def)

lemma validTaskIdsOf_same: "list_all2 sameInput all all' \<Longrightarrow> validTaskIdsOf all = validTaskIdsOf all'"
  using find_sameInput[of all all' tasks]
  by (auto simp: validTaskIdsOf_def split: option.splits)

lemma workerRowsOf_same: "list_all2 sameInput all all' \<Longrightarrow> workerRowsOf all = workerRowsOf all'"
  using find_sameInput[of all all' workers]
  by (auto simp: workerRowsOf_def split: option.splits)

lemma checkRequiredColumns_same:
  "data e = data e' \<Longrightarrow> checkRequiredColumns e cols errs = checkRequiredColumns e' cols errs"
  by (simp add: checkRequiredColumns_def)

lemma validateClients_alt:
  "validateClients e all =
     map_sum id fst
       (forEach (validateClients_row (validTaskIdsOf all)) (enumerate 0 (data e))
          (checkRequiredColumns e (requiredColumnsOf clients) [], {}))"
  by (simp add: validateClients_def validTaskIdsOf_def requiredColumnsOf_def Let_def)

lemma validateTasks_alt:
  "validateTasks e all =
     (case forEach collectSkills (workerRowsOf all) {} of
        Inl x \<Rightarrow> Inl x
      | Inr S \<Rightarrow>
          map_sum id fst
            (forEach (validateTasks_row (workerRowsOf all) S) (enumerate 0 (data e))
               (checkRequiredColumns e (requiredColumnsOf tasks) [], {})))"
  by (simp add: validateTasks_def workerRowsOf_def requiredColumnsOf_def Let_def split: sum.split)

lemma validateEntity_same:
  assumes "sameInput e e'" and "list_all2 sameInput all all'"
  shows "validateEntity e' all' = validateEntity e all"
proof -
  from assms(1) have t: "type_e e' = type_e e" and d: "data e' = data e" by (simp_all add: sameInput_def)
  show ?thesis
  proof (cases "type_e e")
    case clients
    with t d show ?thesis
      by (simp add: validateEntity_def validateClients_alt validTaskIdsOf_same[OF assms(2)]
          checkRequiredColumns_same[of e' e])
  next
    case workers
    with t d show ?thesis
      by (simp add: validateEntity_def validateWorkers_def checkRequiredColumns_same[of e' e])
  next
    case tasks
    with t d show ?thesis
      by (simp add: validateEntity_def validateTasks_alt workerRowsOf_same[OF assms(2)]
          checkRequiredColumns_same[of e' e] split: sum.split)
  qed
qed

lemma sorted_wrt_chunks:
  assumes "\<And>i. i < n \<Longrightarrow> sorted_wrt R (F i)"
    and "\<And>i j a b. i < j \<Longrightarrow> j < n \<Longrightarrow> a \<in> set (F i) \<Longrightarrow> b \<in> set (F j) \<Longrightarrow> R a b"
  shows "sorted_wrt R (concat (map F [0..<n]))"
  using assms
proof (induction n)
  case 0
  then show ?case by simp
next
  case (Suc n)
  have "sorted_wrt R (concat (map F [0..<n]))"
    by (rule Suc.IH) (use Suc.prems in auto)
  moreover have "sorted_wrt R (F n)" using Suc.prems(1) by simp
  moreover have "R a b" if "a \<in> set (concat (map F [0..<n]))" "b \<in> set (F n)" for a b
  proof -
    from that(1) obtain i where "i < n" "a \<in> set (F i)" by auto
    with that(2) show ?thesis using Suc.prems(2)[of i n a b] by simp
  qed
  ultimately show ?case by (simp add: sorted_wrt_append)
qed

lemma set_if: "set (if b then [x] else []) = (if b then {x} else {})"
  by (cases b) simp_all

lemma sorted_wrt_if: "sorted_wrt R (if b then [x] else [])"
  by (cases b) simp_all

lemma ball_if_set: "(\<forall>d \<in> (if b then {x} else {}). P d) = (b \<longrightarrow> P x)"
  by (cases b) simp_all

lemma sorted_wrt_same: "(\<And>x y. R (f x) (f y)) \<Longrightarrow> sorted_wrt R (map f xs)"
  by (induction xs) auto

lemma clients_ordered:
  "sorted_wrt (rowMajor clients) (idErrs ''ClientID'' n r s @ clientChecks V n r)"
proof -
  have "sorted_wrt (rowMajor clients) (map (unknownReference n) xs)" for xs
    by (rule sorted_wrt_same) (simp add: rowMajor_def unknownReference_def codeOrder_def)
  then show ?thesis
    unfolding idErrs_eq clientChecks_def
    by (simp add: sorted_wrt_append sorted_wrt_if set_if ball_if_set ball_Un rowMajor_def codeOrder_def
        duplicateId_def missingValue_def unknownReference_def split del: if_split)
qed

lemma workers_ordered:
  "sorted_wrt (rowMajor workers) (idErrs ''WorkerID'' n r s @ workerChecks n r)"
  unfolding idErrs_eq workerChecks_def
  by (simp add: sorted_wrt_append sorted_wrt_if set_if ball_if_set ball_Un rowMajor_def codeOrder_def
        duplicateId_def missingValue_def split del: if_split)

lemma tasks_ordered:
  "sorted_wrt (rowMajor tasks) (idErrs ''TaskID'' n r s @ taskChecks W S n r)"
  unfolding idErrs_eq taskChecks_def
  by (simp add: sorted_wrt_append sorted_wrt_if set_if ball_if_set ball_Un rowMajor_def codeOrder_def
        duplicateId_def missingValue_def split del: if_split)


lemma rowFindings_ordered:
  assumes "validateEntity e all = Inr ds" and "i < length (data e)"
  shows "sorted_wrt (rowMajor (type_e e)) (rowFindings e all i)"
  by (cases "type_e e")
     (simp_all add: rowFindings_eq[OF assms] rowChecks_def idColumn_def
        clients_ordered workers_ordered tasks_ordered)

lemma sorted_same: "(\<And>x. x \<in> set xs \<Longrightarrow> f x = c) \<Longrightarrow> sorted (map f xs)"
  by (induction xs) auto

text \<open>
  Claim C4, as the code has it. The findings of a validation depend on nothing but the kind and
  the rows of the entity and of the entities of the list: validating again, also with other
  identifiers or with findings already attached, gives the same result. When validation returns,
  the row numbers of its findings never decrease along the sequence; the findings are those of
  the required columns followed by the findings of the rows in row order, those of one row in
  the order in which the validator of the kind runs its checks.
\<close>

theorem validation_deterministic_row_major:
  "(sameInput e e' \<and> list_all2 sameInput all all' \<longrightarrow> validateEntity e' all' = validateEntity e all)
   \<and> (\<forall>ds. validateEntity e all = Inr ds \<longrightarrow>
         sorted (map row ds)
         \<and> (\<exists>rest. ds = checkRequiredColumns e (requiredColumnsOf (type_e e)) [] @ rest
                \<and> sorted_wrt (rowMajor (type_e e)) rest))"
proof (intro conjI allI impI)
  assume "sameInput e e' \<and> list_all2 sameInput all all'"
  then show "validateEntity e' all' = validateEntity e all"
    using validateEntity_same by blast
next
  fix ds assume ok: "validateEntity e all = Inr ds"
  let ?cols = "checkRequiredColumns e (requiredColumnsOf (type_e e)) []"
  let ?rest = "concat (map (rowFindings e all) [0..<length (data e)])"
  have rest: "sorted_wrt (rowMajor (type_e e)) ?rest"
  proof (rule sorted_wrt_chunks)
    fix i assume "i < length (data e)"
    then show "sorted_wrt (rowMajor (type_e e)) (rowFindings e all i)"
      by (rule rowFindings_ordered[OF ok])
  next
    fix i j a b
    assume "i < j" "j < length (data e)" "a \<in> set (rowFindings e all i)" "b \<in> set (rowFindings e all j)"
    then have "row a = Suc i" "row b = Suc j"
      using rowFindings_rows[OF ok, of i] rowFindings_rows[OF ok, of j] by auto
    with \<open>i < j\<close> show "rowMajor (type_e e) a b" by (simp add: rowMajor_def)
  qed
  with validateEntity_decomp[OF ok]
  show "\<exists>rest. ds = ?cols @ rest \<and> sorted_wrt (rowMajor (type_e e)) rest"
    by blast
  have "sorted_wrt (\<lambda>a b. row a \<le> row b) ?rest"
    by (rule sorted_wrt_mono_rel[OF _ rest]) (auto simp: rowMajor_def)
  then have "sorted (map row ?rest)"
    by (simp add: sorted_map)
  moreover have "sorted (map row ?cols)"
    by (rule sorted_same[of _ _ 1]) (use checkRequiredColumns_types in blast)
  moreover have "row a \<le> row b" if "a \<in> set ?cols" "b \<in> set ?rest" for a b
  proof -
    from that(2) obtain i where "i < length (data e)" "b \<in> set (rowFindings e all i)" by auto
    then have "row b = Suc i" using rowFindings_rows[OF ok] by blast
    moreover from that(1) have "row a = 1" using checkRequiredColumns_types by blast
    ultimately show ?thesis by simp
  qed
  ultimately have "sorted (map row (?cols @ ?rest))"
    unfolding map_append sorted_append by (simp only: set_map) blast
  then show "sorted (map row ds)"
    by (simp only: validateEntity_decomp[OF ok])
qed

theorem validation_deterministic_witness:
  "validateEntity (exampleClients\<lparr>id_e := ''clients-2'', errors := [missingColumn ''GroupTag'']\<rparr>)
       [exampleClients\<lparr>warnings := [missingColumn ''ClientName'']\<rparr>, exampleTasks]
     = validateEntity exampleClients [exampleClients, exampleTasks]
   \<and> (\<exists>ds rest. validateEntity exampleClients [exampleClients, exampleTasks] = Inr ds
          \<and> sorted (map row ds)
          \<and> ds = checkRequiredColumns exampleClients (requiredColumnsOf clients) [] @ rest
          \<and> sorted_wrt (rowMajor clients) rest)"
proof -
  let ?e' = "exampleClients\<lparr>id_e := ''clients-2'', errors := [missingColumn ''GroupTag'']\<rparr>"
  let ?all' = "[exampleClients\<lparr>warnings := [missingColumn ''ClientName'']\<rparr>, exampleTasks]"
  note facts = validation_deterministic_row_major[of exampleClients ?e' "[exampleClients, exampleTasks]" ?all']
  have same: "sameInput exampleClients ?e' \<and> list_all2 sameInput [exampleClients, exampleTasks] ?all'"
    by (simp add: sameInput_def)
  from exampleClients_runs obtain ds where
    ds: "validateEntity exampleClients [exampleClients, exampleTasks] = Inr ds"
    by (auto split: sum.splits)
  have k: "type_e exampleClients = clients" by (simp add: exampleClients_def)
  from facts same have a: "validateEntity ?e' ?all' = validateEntity exampleClients [exampleClients, exampleTasks]"
    by blast
  from facts ds k have "sorted (map row ds)
      \<and> (\<exists>rest. ds = checkRequiredColumns exampleClients (requiredColumnsOf clients) [] @ rest
          \<and> sorted_wrt (rowMajor clients) rest)"
    by simp
  with a ds show ?thesis by blast
qed

text \<open>
  The order in which the specification enumerates the row checks: identity, numeric ranges,
  encoded structures, cross references, capacity consistency, skill coverage, concurrency
  feasibility. Claim C4 asks for the findings of one row in this order.
\<close>

definition specOrder :: "ValidationError \<Rightarrow> nat" where
  "specOrder d =
     (if type d = ''missing_value'' \<or> type d = ''duplicate_id'' then 0
      else if type d = ''invalid_range'' then 1
      else if type d = ''invalid_json'' \<or> type d = ''malformed_list'' then 2
      else if type d = ''unknown_reference'' then 3
      else if type d = ''overloaded_worker'' then 4
      else if type d = ''skill_coverage'' then 5
      else 6)"

definition specRowMajor :: "ValidationError \<Rightarrow> ValidationError \<Rightarrow> bool" where
  "specRowMajor a b = (row a < row b \<or> (row a = row b \<and> specOrder a \<le> specOrder b))"

definition idleWorkers :: DataEntity where
  "idleWorkers =
     \<lparr>id_e = ''workers-3'', type_e = workers,
      data = [[(''WorkerID'', Str ''W1''), (''WorkerName'', Str ''Ann''), (''Skills'', Str ''java''),
               (''AvailableSlots'', Str ''soon''), (''MaxLoadPerPhase'', Str ''0'')]],
      errors = [], warnings = []\<rparr>"

text \<open>
  Claim C4 as stated fails on the order within a row. This worker has slots that are no JSON and
  a maximal load of 0: the finding for the encoded structure comes first and the finding for the
  numeric range second, against the enumeration of the specification.
\<close>

theorem validation_order_counterexample:
  "validateEntity idleWorkers [idleWorkers] =
     Inr [\<lparr>row = 1, column = ''AvailableSlots'', type = ''malformed_list'',
            message = ''AvailableSlots must be a valid JSON array of phase numbers'', severity = error\<rparr>,
          \<lparr>row = 1, column = ''MaxLoadPerPhase'', type = ''invalid_range'',
            message = ''MaxLoadPerPhase must be a positive integer'', severity = error\<rparr>]
   \<and> \<not> sorted_wrt specRowMajor
         [\<lparr>row = 1, column = ''AvailableSlots'', type = ''malformed_list'',
            message = ''AvailableSlots must be a valid JSON array of phase numbers'', severity = error\<rparr>,
          \<lparr>row = 1, column = ''MaxLoadPerPhase'', type = ''invalid_range'',
            message = ''MaxLoadPerPhase must be a positive integer'', severity = error\<rparr>]"
  by code_simp

subsection \<open>When validation returns\<close>

text \<open>
  \<^verbatim>\<open>cell.split(',')\<close> is reached when the cell is truthy, and throws when the cell is a number:
  a cell can be split, or is passed over, unless it is a number other than 0.
\<close>

definition splittable :: "jsval option \<Rightarrow> bool" where
  "splittable v = (case v of Some (Num n) \<Rightarrow> n = 0 | _ \<Rightarrow> True)"

definition returns :: "exn + 'a \<Rightarrow> bool" where
  "returns r = (case r of Inl e \<Rightarrow> False | Inr x \<Rightarrow> True)"

lemma returns_map_sum: "returns (map_sum f g r) = returns r"
  by (cases r) (simp_all add: returns_def)

lemma forEach_returns:
  assumes "\<And>x s. x \<in> set xs \<Longrightarrow> returns (f x s) = ok x"
  shows "returns (forEach f xs s) = list_all ok xs"
  using assms
proof (induction xs arbitrary: s)
  case Nil
  then show ?case by (simp add: returns_def)
next
  case (Cons x xs)
  have x: "returns (f x s) = ok x" using Cons.prems by simp
  show ?case
  proof (cases "f x s")
    case (Inl e)
    with x show ?thesis by (simp add: returns_def)
  next
    case (Inr s')
    with x have "ok x" by (simp add: returns_def)
    moreover have "returns (forEach f xs s') = list_all ok xs"
      by (rule Cons.IH) (use Cons.prems in simp)
    ultimately show ?thesis using Inr by simp
  qed
qed

lemma split_cell_returns: "truthy v \<Longrightarrow> returns (split_cell v) = splittable v"
  by (auto simp: split_cell_def returns_def splittable_def truthy_def split: option.splits jsval.splits)

lemma not_truthy_splittable: "\<not> truthy v \<Longrightarrow> splittable v"
  by (auto simp: splittable_def truthy_def split: option.splits jsval.splits)

lemma clients_row_returns:
  "returns (validateClients_row V ir st) = splittable (get (snd ir) ''RequestedTaskIDs'')"
proof (cases "truthy (get (snd ir) ''RequestedTaskIDs'')")
  case True
  then show ?thesis
    using split_cell_returns[OF True]
    by (auto simp: validateClients_row_def Let_def returns_def split: sum.splits)
next
  case False
  then show ?thesis
    using not_truthy_splittable[OF False]
    by (simp add: validateClients_row_def Let_def returns_def)
qed

lemma workers_row_returns: "returns (validateWorkers_row ir st)"
  by (simp add: validateWorkers_row_def Let_def returns_def)

lemma tasks_row_returns:
  "returns (validateTasks_row W S ir st) = splittable (get (snd ir) ''RequiredSkills'')"
proof (cases "truthy (get (snd ir) ''RequiredSkills'')")
  case True
  then show ?thesis
    using split_cell_returns[OF True]
    by (auto simp: validateTasks_row_def Let_def returns_def split: sum.splits)
next
  case False
  then show ?thesis
    using not_truthy_splittable[OF False]
    by (simp add: validateTasks_row_def Let_def returns_def)
qed

lemma collectSkills_returns:
  "returns (collectSkills w S) = splittable (get w ''Skills'')"
proof (cases "truthy (get w ''Skills'')")
  case True
  then show ?thesis
    using split_cell_returns[OF True]
    by (auto simp: collectSkills_def returns_def split: sum.splits)
next
  case False
  then show ?thesis
    using not_truthy_splittable[OF False]
    by (simp add: collectSkills_def returns_def)
qed

lemma list_all_enumerate: "list_all (\<lambda>ir. P (snd ir)) (enumerate n xs) = list_all P xs"
  by (induction xs arbitrary: n) auto

text \<open>
  The cells that are split: the requested task IDs of each client, the skills of each worker of
  the list, which the validation of tasks collects first, and the required skills of each task.
\<close>

definition validationReturns :: "DataEntity \<Rightarrow> DataEntity list \<Rightarrow> bool" where
  "validationReturns e all =
     (case type_e e of
        clients \<Rightarrow> list_all (\<lambda>r. splittable (get r ''RequestedTaskIDs'')) (data e)
      | workers \<Rightarrow> True
      | tasks \<Rightarrow> list_all (\<lambda>w. splittable (get w ''Skills'')) (workerRowsOf all)
                 \<and> list_all (\<lambda>r. splittable (get r ''RequiredSkills'')) (data e))"

text \<open>
  Validation returns its findings exactly when each cell it splits can be split; otherwise it
  throws a \<^verbatim>\<open>TypeError\<close>. The validation of workers always returns.
\<close>

theorem validation_returns_iff:
  "(\<exists>ds. validateEntity e all = Inr ds) \<longleftrightarrow> validationReturns e all"
proof -
  have "returns (validateEntity e all) = validationReturns e all"
  proof (cases "type_e e")
    case clients
    then show ?thesis
      by (simp add: validateEntity_def validateClients_alt returns_map_sum validationReturns_def
          forEach_returns[where ok="\<lambda>ir. splittable (get (snd ir) ''RequestedTaskIDs'')"]
          clients_row_returns list_all_enumerate[where P="\<lambda>r. splittable (get r ''RequestedTaskIDs'')"])
  next
    case workers
    then show ?thesis
      by (simp add: validateEntity_def validateWorkers_def returns_map_sum validationReturns_def Let_def
          forEach_returns[where ok="\<lambda>ir. True"] workers_row_returns list_all_iff)
  next
    case tasks
    have w: "returns (forEach collectSkills (workerRowsOf all) {})
              = list_all (\<lambda>w. splittable (get w ''Skills'')) (workerRowsOf all)"
      by (rule forEach_returns) (rule collectSkills_returns)
    show ?thesis
    proof (cases "forEach collectSkills (workerRowsOf all) {}")
      case (Inl x)
      with w tasks show ?thesis
        by (simp add: validateEntity_def validateTasks_alt validationReturns_def returns_def)
    next
      case (Inr S)
      with w have "list_all (\<lambda>w. splittable (get w ''Skills'')) (workerRowsOf all)"
        by (simp add: returns_def)
      with Inr tasks show ?thesis
        by (simp add: validateEntity_def validateTasks_alt returns_map_sum validationReturns_def
          forEach_returns[where ok="\<lambda>ir. splittable (get (snd ir) ''RequiredSkills'')"]
          tasks_row_returns list_all_enumerate[where P="\<lambda>r. splittable (get r ''RequiredSkills'')"])
    qed
  qed
  then show ?thesis
    by (cases "validateEntity e all") (simp_all add: returns_def)
qed

theorem validation_returns_witness:
  "(\<exists>ds. validateEntity exampleClients [exampleClients, exampleTasks] = Inr ds)
   \<and> validateEntity numberedClients [numberedClients, exampleTasks] = Inl TypeError"
proof -
  have a: "validationReturns exampleClients [exampleClients, exampleTasks]" by code_simp
  have b: "\<not> validationReturns numberedClients [numberedClients, exampleTasks]" by code_simp
  from validation_returns_iff[of numberedClients "[numberedClients, exampleTasks]"] b
  have "validateEntity numberedClients [numberedClients, exampleTasks] = Inl TypeError"
    by (cases "validateEntity numberedClients [numberedClients, exampleTasks]") (auto intro: exn.exhaust)
  with validation_returns_iff[of exampleClients "[exampleClients, exampleTasks]"] a
  show ?thesis by blast
qed

subsection \<open>The upload pipeline splits findings by severity\<close>














subsection \<open>Saturation findings\<close>














text \<open>
  Claim C10. When the entity list has no tasks entity, or no workers entity, the saturation
  check returns no finding.
\<close>

theorem saturation_needs_both:
  "(\<forall>e \<in> set allEntities. type_e e \<noteq> tasks) \<or> (\<forall>e \<in> set allEntities. type_e e \<noteq> workers)
   \<Longrightarrow> validatePhaseSlotSaturation allEntities = []"
proof (erule disjE)
  assume "\<forall>e \<in> set allEntities. type_e e \<noteq> tasks"
  then have "find (\<lambda>e. type_e e = tasks) allEntities = None"
    by (simp add: find_None_iff)
  then show ?thesis
    by (simp add: validatePhaseSlotSaturation_def)
next
  assume "\<forall>e \<in> set allEntities. type_e e \<noteq> workers"
  then have "find (\<lambda>e. type_e e = workers) allEntities = None"
    by (simp add: find_None_iff)
  then show ?thesis
    by (simp add: validatePhaseSlotSaturation_def split: option.split)
qed

theorem saturation_needs_both_witness:
  "validatePhaseSlotSaturation
     [\<lparr>id_e = ''workers-1'', type_e = workers,
       data = [[(''WorkerID'', Str ''W1''), (''AvailableSlots'', Str ''[1,2]'')]],
       errors = [], warnings = []\<rparr>] = []
   \<and> validatePhaseSlotSaturation
     [\<lparr>id_e = ''tasks-1'', type_e = tasks,
       data = [[(''TaskID'', Str ''T1''), (''Duration'', Num 5), (''PreferredPhases'', Str ''oops'')]],
       errors = [], warnings = []\<rparr>] = []"
  using saturation_needs_both [of "[\<lparr>id_e = ''workers-1'', type_e = workers,
       data = [[(''WorkerID'', Str ''W1''), (''AvailableSlots'', Str ''[1,2]'')]],
       errors = [], warnings = []\<rparr>]"]
    saturation_needs_both [of "[\<lparr>id_e = ''tasks-1'', type_e = tasks,
       data = [[(''TaskID'', Str ''T1''), (''Duration'', Num 5), (''PreferredPhases'', Str ''oops'')]],
       errors = [], warnings = []\<rparr>]"]
  by simp

section \<open>Properties of the query engine\<close>

definition notedClients :: DataEntity where
  "notedClients =
     \<lparr>id_e = ''clients-3'', type_e = clients,
      data = [[(''ClientID'', Str ''C1''), (''ClientName'', Str ''Acme''), (''GroupTag'', Str ''Beta''),
               (''Notes'', Str ''asked for clients in group Alpha'')],
              [(''ClientID'', Str ''C2''), (''ClientName'', Str ''Bolt''), (''GroupTag'', Str ''Gamma'')]],
      errors = [], warnings = []\<rparr>"

text \<open>
  Claim C1 at a query that a pattern matches. The group pattern matches the query and its
  filter finds no row, since no client is in a group named alpha; the engine then runs the
  fallback search all the same, and returns the row whose notes contain the query, with the
  explanation of the fallback.
\<close>

theorem query_falls_back_after_a_match:
  "firstMatch queryPatterns ''clients in group alpha'' = Some (InGroup, [(2, ''alpha''), (1, ''clients'')])
   \<and> runPattern InGroup [(2, ''alpha''), (1, ''clients'')] [notedClients] = Inr []
   \<and> processNaturalLanguageQuery ''clients in group alpha'' [notedClients]
       = Inr ([[(''ClientID'', Str ''C1''), (''ClientName'', Str ''Acme''), (''GroupTag'', Str ''Beta''),
                (''Notes'', Str ''asked for clients in group Alpha''), (''_entityType'', Str ''clients'')]],
              ''Used fallback text search across all entities'')"
  by code_simp

end
